theory Spec2Isabelle
  imports Complex_Main "HOL-Library.AList"
begin

section \<open>Home Maintenance: due-state sensor, confirmation button, update handler\<close>

text \<open>
  A shallow embedding of three modules of the integration:
  \<^item> \<^verbatim>\<open>binary_sensor.py\<close>: the due-state computation of \<^verbatim>\<open>HomeMaintenanceSensor\<close>;
  \<^item> \<^verbatim>\<open>button.py\<close>: the double-press confirmation of \<^verbatim>\<open>HomeMaintenanceButton\<close>
    over its three module-level tables;
  \<^item> \<^verbatim>\<open>websocket.py\<close>: the \<^verbatim>\<open>update_task\<close> command handler.
  Python exceptions are values of \<open>error\<close>; a function that can raise returns
  \<open>error + 'a\<close>, with \<open>Inl\<close> the exception. A leading underscore of a Python name
  is dropped, since an Isabelle name cannot start with one.
\<close>

subsection \<open>Python values and exceptions\<close>

datatype error = KeyError string | OverflowError | ValueError | TypeError



subsection \<open>The datetime library, as far as the code uses it\<close>

text \<open>
  \<^verbatim>\<open>datetime\<close>, \<^verbatim>\<open>timedelta\<close>, \<^verbatim>\<open>dateutil.relativedelta\<close> and
  \<^verbatim>\<open>homeassistant.util.dt\<close> are libraries, not part of the repository. The
  definitions of this subsection follow their documented behaviour: the proleptic
  Gregorian calendar with years 1 to 9999, \<^verbatim>\<open>OverflowError\<close> when arithmetic leaves
  that range, and comparison of aware datetimes on the UTC time line.

  A time zone is either a fixed offset in seconds east of UTC (what parsing an ISO
  string with an offset gives; UTC is \<open>FixedOffset 0\<close>) or the configured default
  zone of the installation, whose offset depends on the wall-clock time and is a
  parameter (\<open>zone_offset\<close> below).
\<close>

datatype tzinfo = FixedOffset int | DefaultZone

record datetime =
  year :: int
  month :: int
  day :: int
  hour :: int
  minute :: int
  second :: int
  microsecond :: int
  tzinfo :: "tzinfo option"

definition MAXYEAR :: int where
  "MAXYEAR = 9999"

definition is_leap :: "int \<Rightarrow> bool" where
  "is_leap y = (y mod 4 = 0 \<and> (y mod 100 \<noteq> 0 \<or> y mod 400 = 0))"

definition days_in_month :: "int \<Rightarrow> int \<Rightarrow> int" where
  "days_in_month y m =
     (if m = 2 then (if is_leap y then 29 else 28)
      else if m = 4 \<or> m = 6 \<or> m = 9 \<or> m = 11 then 30 else 31)"

definition days_before_year :: "int \<Rightarrow> int" where
  "days_before_year y =
     (let y1 = y - 1 in y1 * 365 + y1 div 4 - y1 div 100 + y1 div 400)"

text \<open>The table \<^verbatim>\<open>_DAYS_BEFORE_MONTH\<close> of the standard library, for a common year.\<close>

definition DAYS_BEFORE_MONTH :: "int list" where
  "DAYS_BEFORE_MONTH = [0, 0, 31, 59, 90, 120, 151, 181, 212, 243, 273, 304, 334]"

definition days_before_month :: "int \<Rightarrow> int \<Rightarrow> int" where
  "days_before_month y m =
     DAYS_BEFORE_MONTH ! nat m + (if m > 2 \<and> is_leap y then 1 else 0)"

definition ymd2ord :: "int \<Rightarrow> int \<Rightarrow> int \<Rightarrow> int" where
  "ymd2ord y m d = days_before_year y + days_before_month y m + d"

definition MAXORDINAL :: int where
  "MAXORDINAL = 3652059"

text \<open>
  \<^verbatim>\<open>_ord2ymd\<close>: the date of an ordinal, by the cycles of 400, 100, 4 and 1 years.
\<close>

definition ord2ymd :: "int \<Rightarrow> int \<times> int \<times> int" where
  "ord2ymd n0 =
     (let n = n0 - 1;
          n400 = n div 146097; n = n mod 146097;
          n100 = n div 36524; n = n mod 36524;
          n4 = n div 1461; n = n mod 1461;
          n1 = n div 365; n = n mod 365;
          y = n400 * 400 + 1 + n100 * 100 + n4 * 4 + n1
      in if n1 = 4 \<or> n100 = 4 then (y - 1, 12, 31)
         else
           let leapyear = (n1 = 3 \<and> (n4 \<noteq> 24 \<or> n100 = 3));
               m = (n + 50) div 32;
               preceding = DAYS_BEFORE_MONTH ! nat m + (if m > 2 \<and> leapyear then 1 else 0)
           in if preceding > n
              then let m' = m - 1;
                       preceding' = preceding -
                         ((if m' = 2 then 28
                           else if m' = 4 \<or> m' = 6 \<or> m' = 9 \<or> m' = 11 then 30 else 31)
                          + (if m' = 2 \<and> leapyear then 1 else 0))
                   in (y, m', n - preceding' + 1)
              else (y, m, n - preceding + 1))"

text \<open>
  A \<^verbatim>\<open>timedelta\<close> is its length in microseconds. The constructor refuses more than
  999999999 days in either direction.
\<close>

definition US_PER_DAY :: int where
  "US_PER_DAY = 86400000000"

definition timedelta_days :: "int \<Rightarrow> error + int" where
  "timedelta_days n =
     (if \<bar>n\<bar> > 999999999 then Inl OverflowError else Inr (n * US_PER_DAY))"

definition timedelta_weeks :: "int \<Rightarrow> error + int" where
  "timedelta_weeks n = timedelta_days (7 * n)"

definition timedelta_seconds :: "int \<Rightarrow> int" where
  "timedelta_seconds n = n * 1000000"

text \<open>The wall-clock fields of a datetime as microseconds since ordinal 0.\<close>

definition wall_us :: "datetime \<Rightarrow> int" where
  "wall_us d =
     ((ymd2ord (year d) (month d) (day d) * 86400
        + hour d * 3600 + minute d * 60 + second d) * 1000000) + microsecond d"

text \<open>
  \<^verbatim>\<open>datetime.__add__\<close>: add the delta to the wall-clock fields, keep the time
  zone, and raise \<^verbatim>\<open>OverflowError\<close> when the day leaves the ordinals 1 to
  \<open>MAXORDINAL\<close>.
\<close>

definition dt_add :: "datetime \<Rightarrow> int \<Rightarrow> error + datetime" where
  "dt_add d delta =
     (let total = wall_us d + delta;
          days = total div US_PER_DAY;
          rest = total mod US_PER_DAY;
          secs = rest div 1000000
      in if 0 < days \<and> days \<le> MAXORDINAL
         then (case ord2ymd days of (y, m, dd) \<Rightarrow>
                 Inr (d\<lparr>year := y, month := m, day := dd,
                        hour := secs div 3600, minute := (secs mod 3600) div 60,
                        second := secs mod 60, microsecond := rest mod 1000000\<rparr>))
         else Inl OverflowError)"

text \<open>
  Modelled from the spec: \<^verbatim>\<open>dateutil.relativedelta\<close> is not under the sources.
  Adding \<open>n\<close> calendar months moves year and month and clamps the day to the last
  valid day of the target month ("Jan 31 plus 1 month lands on the last valid day of
  February"); the time of day and the time zone stay. The library first normalises
  the month count to a number of years and a rest of at most 11 months of the same
  sign, and the final \<^verbatim>\<open>replace\<close> raises \<^verbatim>\<open>ValueError\<close> for a year outside
  1 to 9999.
\<close>

definition normalize_months :: "int \<Rightarrow> int \<times> int" where
  "normalize_months n =
     (let s = (if n < 0 then - 1 else 1)
      in (s * ((n * s) div 12), s * ((n * s) mod 12)))"

text \<open>
  Modelled from the spec: the year and month that lie \<open>n\<close> calendar months after
  month \<open>m\<close> of year \<open>y\<close>, as \<^verbatim>\<open>relativedelta.__radd__\<close> computes them.
\<close>

definition shift_month :: "int \<Rightarrow> int \<Rightarrow> int \<Rightarrow> int \<times> int" where
  "shift_month y m n =
     (case normalize_months n of
        (years, months) \<Rightarrow>
          let y0 = y + years; m0 = m + months
          in if m0 > 12 then (y0 + 1, m0 - 12)
             else if m0 < 1 then (y0 - 1, m0 + 12)
             else (y0, m0))"

text \<open>
  Modelled from the spec: \<^verbatim>\<open>d + relativedelta(months=n)\<close>, with the day clamped to
  the last valid day of the target month.
\<close>

definition relativedelta_months :: "datetime \<Rightarrow> int \<Rightarrow> error + datetime" where
  "relativedelta_months d n =
     (case shift_month (year d) (month d) n of
        (y, m) \<Rightarrow>
          if 1 \<le> y \<and> y \<le> MAXYEAR
          then Inr (d\<lparr>year := y, month := m, day := min (days_in_month y m) (day d)\<rparr>)
          else Inl ValueError)"





text \<open>\<^verbatim>\<open>d.replace(hour=0, minute=0, second=0, microsecond=0)\<close>.\<close>

definition replace_midnight :: "datetime \<Rightarrow> datetime" where
  "replace_midnight d = d\<lparr>hour := 0, minute := 0, second := 0, microsecond := 0\<rparr>"


subsection \<open>Formatting\<close>








subsection \<open>The due-state sensor (binary\_sensor.py)\<close>


definition calculate_next_due_date :: "datetime \<Rightarrow> int \<Rightarrow> string \<Rightarrow> error + datetime option" where
  "calculate_next_due_date last_performed interval_value interval_type =
     (if interval_type = ''kilometers'' \<or> interval_type = ''miles'' then Inr None
      else if interval_type = ''days'' then
        (case timedelta_days interval_value of
           Inl e \<Rightarrow> Inl e
         | Inr td \<Rightarrow> map_sum id Some (dt_add last_performed td))
      else if interval_type = ''weeks'' then
        (case timedelta_weeks interval_value of
           Inl e \<Rightarrow> Inl e
         | Inr td \<Rightarrow> map_sum id Some (dt_add last_performed td))
      else if interval_type = ''months'' then
        map_sum id Some (relativedelta_months last_performed interval_value)
      else Inr (Some last_performed))"


text \<open>
  A task is a Python dictionary. A key that is absent, or present with the value
  \<^verbatim>\<open>None\<close>, is \<open>None\<close> here: \<^verbatim>\<open>task.get(k)\<close> gives \<^verbatim>\<open>None\<close> for both, and
  \<^verbatim>\<open>task[k]\<close> of an absent key raises \<^verbatim>\<open>KeyError\<close>. The values have the types
  the command schema of \<^verbatim>\<open>add_task\<close> gives them.
\<close>

record task =
  task_id :: string
  title :: "string option"
  interval_value :: "int option"
  interval_type :: "string option"
  last_performed :: "string option"
  last_odometer :: "real option"
  odometer_entity :: "string option"
  tag_id :: "string option"

text \<open>
  What the code reads from its surroundings: the clock (\<^verbatim>\<open>dt_util.now()\<close>, an
  aware datetime of the default zone), the offset of the default zone at a wall-clock
  time, \<^verbatim>\<open>dt_util.parse_datetime\<close> (\<open>None\<close> for a string it cannot parse), the state
  string of an entity (\<^verbatim>\<open>hass.states.get(e).state\<close>, \<open>None\<close> when there is no such
  entity), Python's \<^verbatim>\<open>float(s)\<close> (\<open>None\<close> when it raises \<^verbatim>\<open>ValueError\<close>),
  and of \<^verbatim>\<open>hass.data[DOMAIN]\<close> whether \<^verbatim>\<open>"store"\<close> holds a store and the task
  ids that are keys of \<^verbatim>\<open>"button_entities"\<close>.
\<close>

record hass =
  dt_now :: datetime
  zone_offset :: "datetime \<Rightarrow> int"
  zone_utc_offset :: "datetime \<Rightarrow> int"
  parse_datetime :: "string \<Rightarrow> datetime option"
  states_get :: "string \<Rightarrow> string option"
  float_of_str :: "string \<Rightarrow> real option"
  store_available :: bool
  button_entities :: "string list"


definition get_current_odometer :: "hass \<Rightarrow> task \<Rightarrow> real option" where
  "get_current_odometer h t =
     (case odometer_entity t of
        None \<Rightarrow> None
      | Some e \<Rightarrow>
          if e = [] then None
          else case states_get h e of
                 None \<Rightarrow> None
               | Some st \<Rightarrow>
                   if st \<noteq> ''unknown'' \<and> st \<noteq> ''unavailable'' then float_of_str h st
                   else None)"





subsection \<open>The confirmation button (button.py)\<close>

text \<open>
  The three module-level dictionaries are association lists in insertion order, as a
  Python dictionary iterates. The timestamps are the aware datetimes that
  \<^verbatim>\<open>dt_util.now()\<close> returns, all of the one default zone object, for which Python's
  \<^verbatim>\<open>a - b\<close> is the difference of the wall-clock fields.

  The event loop is the table \<open>loop_timers\<close> of the handles \<^verbatim>\<open>call_later\<close> has
  returned and that have not fired yet: the callback, the delay and the cancelled flag.
  A handle is a number. When a timer fires is not decided by the model: firing is an
  event that may come at any time, as the tables are shared between presses, timer
  callbacks and sweeps.

  The two effects on the outside are logged: the calls of
  \<^verbatim>\<open>store.update_last_performed(task_id, performed_odometer=...)\<close> and the calls of
  \<^verbatim>\<open>async_write_ha_state()\<close> of a button entity (by its task id, with the icon it
  writes). Log messages are left out.
\<close>

definition CONFIRMATION_TIMEOUT :: int where
  "CONFIRMATION_TIMEOUT = timedelta_seconds 5"

definition CONFIRMED_DISPLAY_TIME :: int where
  "CONFIRMED_DISPLAY_TIME = timedelta_seconds 3"

definition dt_sub :: "datetime \<Rightarrow> datetime \<Rightarrow> int" where
  "dt_sub a b = wall_us a - wall_us b"

datatype callback = ResetIcon string | WriteState string

record timer_handle =
  callback_of :: callback
  delay :: int
  cancelled :: bool

record button_state =
  pending_confirmations :: "(string \<times> datetime) list"
  confirmed_tasks :: "(string \<times> datetime) list"
  reset_timers :: "(string \<times> nat) list"
  loop_timers :: "(nat \<times> timer_handle) list"
  next_handle :: nat
  store_updates :: "(string \<times> real option) list"
  state_writes :: "(string \<times> string) list"

definition initial_state :: button_state where
  "initial_state =
     \<lparr>pending_confirmations = [], confirmed_tasks = [], reset_timers = [],
      loop_timers = [], next_handle = 0, store_updates = [], state_writes = []\<rparr>"

text \<open>\<^verbatim>\<open>k in d\<close> for a dictionary.\<close>

definition has_key :: "('k \<times> 'v) list \<Rightarrow> 'k \<Rightarrow> bool" where
  "has_key d k \<longleftrightarrow> map_of d k \<noteq> None"

text \<open>
  The property \<^verbatim>\<open>icon\<close>. Reading it removes a confirmed entry that is older than
  the display time.
\<close>

definition icon_unconfirmed :: "string \<Rightarrow> button_state \<Rightarrow> string \<times> button_state" where
  "icon_unconfirmed tid s =
     (if has_key (pending_confirmations s) tid then (''mdi:alert-circle'', s)
      else (''mdi:check-circle-outline'', s))"

definition icon :: "datetime \<Rightarrow> string \<Rightarrow> button_state \<Rightarrow> string \<times> button_state" where
  "icon now tid s =
     (case map_of (confirmed_tasks s) tid of
        None \<Rightarrow> icon_unconfirmed tid s
      | Some confirmed_time \<Rightarrow>
          if dt_sub now confirmed_time \<le> CONFIRMED_DISPLAY_TIME then (''mdi:check-circle'', s)
          else icon_unconfirmed tid
                 (s\<lparr>confirmed_tasks := AList.delete tid (confirmed_tasks s)\<rparr>))"

text \<open>
  \<^verbatim>\<open>async_write_ha_state()\<close> of the button of task \<open>tid\<close>: the entity's state is
  computed, which reads the property \<^verbatim>\<open>icon\<close>, and written.
\<close>

definition async_write_ha_state :: "datetime \<Rightarrow> string \<Rightarrow> button_state \<Rightarrow> button_state" where
  "async_write_ha_state now tid s =
     (case icon now tid s of
        (ic, s') \<Rightarrow> s'\<lparr>state_writes := state_writes s' @ [(tid, ic)]\<rparr>)"

text \<open>\<^verbatim>\<open>hass.loop.call_later(delay, callback)\<close> and \<^verbatim>\<open>handle.cancel()\<close>.\<close>

definition call_later :: "int \<Rightarrow> callback \<Rightarrow> button_state \<Rightarrow> nat \<times> button_state" where
  "call_later dly c s =
     (next_handle s,
      s\<lparr>loop_timers := loop_timers s
           @ [(next_handle s, \<lparr>callback_of = c, delay = dly, cancelled = False\<rparr>)],
        next_handle := Suc (next_handle s)\<rparr>)"

definition cancel :: "nat \<Rightarrow> button_state \<Rightarrow> button_state" where
  "cancel hnd s =
     s\<lparr>loop_timers :=
         map (\<lambda>(i, th). if i = hnd then (i, th\<lparr>cancelled := True\<rparr>) else (i, th))
           (loop_timers s)\<rparr>"

text \<open>
  The pattern \<^verbatim>\<open>if task_id in _reset_timers: _reset_timers[task_id].cancel()\<close>,
  with and without the following \<^verbatim>\<open>del _reset_timers[task_id]\<close>.
\<close>

definition cancel_reset_timer :: "string \<Rightarrow> button_state \<Rightarrow> button_state" where
  "cancel_reset_timer tid s =
     (case map_of (reset_timers s) tid of None \<Rightarrow> s | Some hnd \<Rightarrow> cancel hnd s)"

definition cancel_and_del_reset_timer :: "string \<Rightarrow> button_state \<Rightarrow> button_state" where
  "cancel_and_del_reset_timer tid s =
     (case map_of (reset_timers s) tid of
        None \<Rightarrow> s
      | Some hnd \<Rightarrow> (cancel hnd s)\<lparr>reset_timers := AList.delete tid (reset_timers s)\<rparr>)"

text \<open>The closure \<^verbatim>\<open>reset_icon\<close> that the timeout timer runs.\<close>

definition reset_icon :: "hass \<Rightarrow> string \<Rightarrow> button_state \<Rightarrow> button_state" where
  "reset_icon h tid s =
     (if has_key (pending_confirmations s) tid then
        let s1 = s\<lparr>pending_confirmations := AList.delete tid (pending_confirmations s)\<rparr>;
            s2 = (if has_key (reset_timers s1) tid
                  then s1\<lparr>reset_timers := AList.delete tid (reset_timers s1)\<rparr> else s1)
        in if tid \<in> set (button_entities h) then async_write_ha_state (dt_now h) tid s2 else s2
      else s)"

text \<open>
  The sweep at the end of \<^verbatim>\<open>async_press\<close>: the loop over the expired pending
  entries, then the loop over the expired confirmed entries. \<open>expired_keys\<close> is the
  list comprehension \<^verbatim>\<open>[tid for tid, timestamp in d.items() if now - timestamp > limit]\<close>.
\<close>

definition expire_pending :: "hass \<Rightarrow> string \<Rightarrow> button_state \<Rightarrow> button_state" where
  "expire_pending h tid s =
     (let s1 = s\<lparr>pending_confirmations := AList.delete tid (pending_confirmations s)\<rparr>;
          s2 = cancel_and_del_reset_timer tid s1
      in if tid \<in> set (button_entities h) then async_write_ha_state (dt_now h) tid s2 else s2)"

definition expire_confirmed :: "string \<Rightarrow> button_state \<Rightarrow> button_state" where
  "expire_confirmed tid s = s\<lparr>confirmed_tasks := AList.delete tid (confirmed_tasks s)\<rparr>"

definition expired_keys :: "datetime \<Rightarrow> int \<Rightarrow> (string \<times> datetime) list \<Rightarrow> string list" where
  "expired_keys now limit d =
     map fst (filter (\<lambda>(tid, timestamp). dt_sub now timestamp > limit) d)"

definition cleanup :: "hass \<Rightarrow> button_state \<Rightarrow> button_state" where
  "cleanup h s =
     (let expired = expired_keys (dt_now h) CONFIRMATION_TIMEOUT (pending_confirmations s);
          s1 = fold (expire_pending h) expired s;
          expired_confirmed = expired_keys (dt_now h) CONFIRMED_DISPLAY_TIME (confirmed_tasks s1)
      in fold expire_confirmed expired_confirmed s1)"

text \<open>The three branches of \<^verbatim>\<open>async_press\<close>, before the sweep.\<close>

definition confirm :: "hass \<Rightarrow> task \<Rightarrow> button_state \<Rightarrow> button_state" where
  "confirm h t s =
     (let tid = task_id t;
          s1 = s\<lparr>pending_confirmations := AList.delete tid (pending_confirmations s)\<rparr>;
          s2 = cancel_and_del_reset_timer tid s1;
          s3 = s2\<lparr>confirmed_tasks := AList.update tid (dt_now h) (confirmed_tasks s2)\<rparr>;
          s4 = async_write_ha_state (dt_now h) tid s3
      in if store_available h then
           let performed_odometer =
                 (if interval_type t = Some ''kilometers'' \<or> interval_type t = Some ''miles''
                  then get_current_odometer h t else None);
               s5 = s4\<lparr>store_updates := store_updates s4 @ [(tid, performed_odometer)]\<rparr>
           in snd (call_later CONFIRMED_DISPLAY_TIME (WriteState tid) s5)
         else s4)"

definition restart :: "hass \<Rightarrow> task \<Rightarrow> button_state \<Rightarrow> button_state" where
  "restart h t s =
     (let tid = task_id t;
          s1 = cancel_and_del_reset_timer tid s;
          s2 = s1\<lparr>pending_confirmations := AList.update tid (dt_now h) (pending_confirmations s1)\<rparr>;
          s3 = async_write_ha_state (dt_now h) tid s2
      in case call_later CONFIRMATION_TIMEOUT (ResetIcon tid) s3 of
           (timer, s4) \<Rightarrow> s4\<lparr>reset_timers := AList.update tid timer (reset_timers s4)\<rparr>)"

definition first_press :: "hass \<Rightarrow> task \<Rightarrow> button_state \<Rightarrow> button_state" where
  "first_press h t s =
     (let tid = task_id t;
          s1 = s\<lparr>pending_confirmations := AList.update tid (dt_now h) (pending_confirmations s)\<rparr>;
          s2 = async_write_ha_state (dt_now h) tid s1;
          s3 = cancel_reset_timer tid s2
      in case call_later CONFIRMATION_TIMEOUT (ResetIcon tid) s3 of
           (timer, s4) \<Rightarrow> s4\<lparr>reset_timers := AList.update tid timer (reset_timers s4)\<rparr>)"

definition async_press :: "hass \<Rightarrow> task \<Rightarrow> button_state \<Rightarrow> button_state" where
  "async_press h t s =
     cleanup h
       (case map_of (pending_confirmations s) (task_id t) of
          Some first_press_time \<Rightarrow>
            if dt_sub (dt_now h) first_press_time \<le> CONFIRMATION_TIMEOUT
            then confirm h t s else restart h t s
        | None \<Rightarrow> first_press h t s)"

text \<open>
  A timer of the loop fires: the handle leaves the loop, and its callback runs unless
  the handle was cancelled. A handle that is not in the loop cannot fire.
\<close>

definition run_callback :: "hass \<Rightarrow> callback \<Rightarrow> button_state \<Rightarrow> button_state" where
  "run_callback h c s =
     (case c of
        ResetIcon tid \<Rightarrow> reset_icon h tid s
      | WriteState tid \<Rightarrow> async_write_ha_state (dt_now h) tid s)"

definition fire :: "hass \<Rightarrow> nat \<Rightarrow> button_state \<Rightarrow> button_state" where
  "fire h hnd s =
     (case map_of (loop_timers s) hnd of
        None \<Rightarrow> s
      | Some th \<Rightarrow>
          let s' = s\<lparr>loop_timers := AList.delete hnd (loop_timers s)\<rparr>
          in if cancelled th then s' else run_callback h (callback_of th) s')"

text \<open>
  The events on the shared tables: a press of the button of a task, a timer firing,
  and a read of the icon of a task's button; each with the surroundings at its time.
\<close>

datatype event = Press task | Fire nat | ReadIcon string

fun step :: "hass \<times> event \<Rightarrow> button_state \<Rightarrow> button_state" where
  "step (h, Press t) s = async_press h t s"
| "step (h, Fire hnd) s = fire h hnd s"
| "step (h, ReadIcon tid) s = snd (icon (dt_now h) tid s)"

text \<open>The states a sequence of events passes through, the first one included.\<close>

fun trace :: "(hass \<times> event) list \<Rightarrow> button_state \<Rightarrow> button_state list" where
  "trace [] s = [s]"
| "trace (e # es) s = s # trace es (step e s)"

subsection \<open>The update command (websocket.py)\<close>







subsection \<open>Example surroundings and tasks\<close>

definition mk_datetime ::
  "int \<Rightarrow> int \<Rightarrow> int \<Rightarrow> int \<Rightarrow> int \<Rightarrow> int \<Rightarrow> tzinfo option \<Rightarrow> datetime" where
  "mk_datetime y m d hh mm ss tz =
     \<lparr>year = y, month = m, day = d, hour = hh, minute = mm, second = ss,
      microsecond = 0, tzinfo = tz\<rparr>"

definition example_parse :: "string \<Rightarrow> datetime option" where
  "example_parse str =
     (if str = ''2024-01-31T00:00:00+01:00''
        then Some (mk_datetime 2024 1 31 0 0 0 (Some (FixedOffset 3600)))
      else if str = ''9999-12-31T00:00:00+00:00''
        then Some (mk_datetime 9999 12 31 0 0 0 (Some (FixedOffset 0)))
      else None)"

definition example_states :: "string \<Rightarrow> string option" where
  "example_states e =
     (if e = ''sensor.car_odometer'' then Some ''12500''
      else if e = ''sensor.bike_odometer'' then Some ''unavailable''
      else None)"

definition example_float :: "string \<Rightarrow> real option" where
  "example_float str = (if str = ''12500'' then Some 12500 else None)"

text \<open>The surroundings on 1 June 2024 at 10:30 and \<open>ss\<close> seconds, two hours east of UTC.\<close>

definition example_hass :: "int \<Rightarrow> hass" where
  "example_hass ss =
     \<lparr>dt_now = mk_datetime 2024 6 1 10 30 ss (Some DefaultZone),
      zone_offset = (\<lambda>d. 7200), zone_utc_offset = (\<lambda>d. 7200),
      parse_datetime = example_parse, states_get = example_states,
      float_of_str = example_float, store_available = True,
      button_entities = [''oil'', ''filter'']\<rparr>"

definition example_task :: "string \<Rightarrow> int \<Rightarrow> string \<Rightarrow> task" where
  "example_task ity v lp =
     \<lparr>task_id = ''filter'', title = Some ''Change the filter'', interval_value = Some v,
      interval_type = Some ity, last_performed = Some lp, last_odometer = None,
      odometer_entity = None, tag_id = None\<rparr>"

definition example_km_task :: "real option \<Rightarrow> string option \<Rightarrow> task" where
  "example_km_task lo e =
     \<lparr>task_id = ''oil'', title = Some ''Change the oil'', interval_value = Some 5000,
      interval_type = Some ''kilometers'',
      last_performed = Some ''2024-01-31T00:00:00+01:00'', last_odometer = lo,
      odometer_entity = e, tag_id = None\<rparr>"





subsection \<open>Notions used in the statements about the button\<close>

text \<open>
  The tables are dictionaries, so no key occurs twice, and every handle that was
  issued is below \<open>next_handle\<close>. Both hold initially and are kept by every event.
\<close>

definition consistent :: "button_state \<Rightarrow> bool" where
  "consistent s \<longleftrightarrow>
     distinct (map fst (pending_confirmations s))
     \<and> distinct (map fst (confirmed_tasks s))
     \<and> distinct (map fst (reset_timers s))
     \<and> (\<forall>i \<in> snd ` set (reset_timers s). i < next_handle s)
     \<and> (\<forall>i \<in> fst ` set (loop_timers s). i < next_handle s)"

text \<open>
  The phases of a task id: a first press is recorded, and a confirmed entry is within
  its display time.
\<close>

definition pending_first_press :: "button_state \<Rightarrow> string \<Rightarrow> bool" where
  "pending_first_press s tid \<longleftrightarrow> has_key (pending_confirmations s) tid"

definition recently_confirmed :: "datetime \<Rightarrow> button_state \<Rightarrow> string \<Rightarrow> bool" where
  "recently_confirmed now s tid \<longleftrightarrow>
     (case map_of (confirmed_tasks s) tid of
        None \<Rightarrow> False
      | Some confirmed_time \<Rightarrow> dt_sub now confirmed_time \<le> CONFIRMED_DISPLAY_TIME)"

text \<open>No task id is in both tables.\<close>

definition exclusive :: "button_state \<Rightarrow> bool" where
  "exclusive s \<longleftrightarrow>
     (\<forall>tid \<in> set (map fst (pending_confirmations s)). \<not> has_key (confirmed_tasks s) tid)"

text \<open>
  A sequence of events in which no press arrives for a task id whose confirmed entry
  is within its display time.
\<close>

fun no_press_while_confirmed :: "(hass \<times> event) list \<Rightarrow> button_state \<Rightarrow> bool" where
  "no_press_while_confirmed [] s = True"
| "no_press_while_confirmed ((h, Press t) # es) s =
     (\<not> recently_confirmed (dt_now h) s (task_id t)
      \<and> no_press_while_confirmed es (step (h, Press t) s))"
| "no_press_while_confirmed (e # es) s = no_press_while_confirmed es (step e s)"

text \<open>Three presses of the same button, at 0, 2 and 3 seconds.\<close>

definition example_three_presses :: "(hass \<times> event) list" where
  "example_three_presses =
     [(example_hass 0, Press (example_task ''days'' 30 [])),
      (example_hass 2, Press (example_task ''days'' 30 [])),
      (example_hass 3, Press (example_task ''days'' 30 []))]"

text \<open>
  A press, the second press, the display timer eight seconds later, and a new press.
\<close>

definition example_cycle :: "(hass \<times> event) list" where
  "example_cycle =
     [(example_hass 0, Press (example_task ''days'' 30 [])),
      (example_hass 2, Press (example_task ''days'' 30 [])),
      (example_hass 10, Fire 1),
      (example_hass 11, Press (example_task ''days'' 30 []))]"

text \<open>The state writes of the button of one task id.\<close>

definition writes_of :: "string \<Rightarrow> button_state \<Rightarrow> (string \<times> string) list" where
  "writes_of tid s = filter (\<lambda>w. fst w = tid) (state_writes s)"

section \<open>Properties\<close>

subsection \<open>Facts about the date arithmetic\<close>







lemma replace_midnight_tzinfo [simp]: "tzinfo (replace_midnight d) = tzinfo d"
  by (simp add: replace_midnight_def)






lemma shift_month_sum:
  assumes m: "1 \<le> m" "m \<le> 12" and r: "shift_month y m n = (y', m')"
  shows "12 * y' + m' = 12 * y + m + n \<and> 1 \<le> m' \<and> m' \<le> 12"
proof (cases "n < 0")
  case True
  then have "normalize_months n = (- ((- n) div 12), - ((- n) mod 12))"
    by (simp add: normalize_months_def)
  with r m show ?thesis
    by (auto simp: shift_month_def Let_def split: if_splits; presburger)
next
  case False
  then have "normalize_months n = (n div 12, n mod 12)"
    by (simp add: normalize_months_def)
  with r m show ?thesis
    by (auto simp: shift_month_def Let_def split: if_splits; presburger)
qed

lemma shift_month_jan: "shift_month y 1 1 = (y, 2)"
  by (simp add: shift_month_def normalize_months_def)

subsection \<open>The due-state sensor\<close>








text \<open>
  C8. With interval type months, a last-performed date of 31 January 2024 and an
  interval value of 1, the due date is 29 February 2024, not a day of March. In
  general adding \<open>n\<close> calendar months lands in the month \<open>n\<close> months later, keeps the
  day where the target month has it and otherwise clamps it to the last day of the
  target month; the addition succeeds exactly when the target year is within 1 to
  9999.
\<close>

theorem month_addition_clamps:
  "(year d = 2024 \<and> month d = 1 \<and> day d = 31 \<longrightarrow>
      calculate_next_due_date d 1 ''months''
        = Inr (Some (d\<lparr>year := 2024, month := 2, day := 29\<rparr>)))
   \<and> (1 \<le> month d \<and> month d \<le> 12 \<longrightarrow>
        (\<forall>r. calculate_next_due_date d n ''months'' = Inr (Some r) \<longrightarrow>
           12 * year r + month r = 12 * year d + month d + n
           \<and> 1 \<le> month r \<and> month r \<le> 12
           \<and> day r = min (days_in_month (year r) (month r)) (day d)
           \<and> r = d\<lparr>year := year r, month := month r, day := day r\<rparr>)
        \<and> ((\<exists>r. calculate_next_due_date d n ''months'' = Inr (Some r))
             \<longleftrightarrow> 12 \<le> 12 * year d + month d + n - 1
                 \<and> 12 * year d + month d + n - 1 < 120000))"
proof -
  have jan: "calculate_next_due_date d 1 ''months''
        = Inr (Some (d\<lparr>year := 2024, month := 2, day := 29\<rparr>))"
    if "year d = 2024 \<and> month d = 1 \<and> day d = 31"
    using that
    by (simp add: calculate_next_due_date_def relativedelta_months_def shift_month_jan
          MAXYEAR_def days_in_month_def is_leap_def)
  obtain y' m' where s: "shift_month (year d) (month d) n = (y', m')"
    by (cases "shift_month (year d) (month d) n")
  have res: "12 * year r + month r = 12 * year d + month d + n
           \<and> 1 \<le> month r \<and> month r \<le> 12
           \<and> day r = min (days_in_month (year r) (month r)) (day d)
           \<and> r = d\<lparr>year := year r, month := month r, day := day r\<rparr>"
    if m: "1 \<le> month d \<and> month d \<le> 12"
      and r: "calculate_next_due_date d n ''months'' = Inr (Some r)" for r
  proof -
    from r s have req: "r = d\<lparr>year := y', month := m', day := min (days_in_month y' m') (day d)\<rparr>"
      by (auto simp: calculate_next_due_date_def relativedelta_months_def split: if_splits)
    from shift_month_sum [OF _ _ s] m
    have "12 * y' + m' = 12 * year d + month d + n \<and> 1 \<le> m' \<and> m' \<le> 12" by simp
    then show ?thesis by (simp add: req)
  qed
  have tot: "(\<exists>r. calculate_next_due_date d n ''months'' = Inr (Some r))
             \<longleftrightarrow> 12 \<le> 12 * year d + month d + n - 1
                 \<and> 12 * year d + month d + n - 1 < 120000"
    if m: "1 \<le> month d \<and> month d \<le> 12"
  proof -
    from shift_month_sum [OF _ _ s] m
    have e: "12 * y' + m' = 12 * year d + month d + n \<and> 1 \<le> m' \<and> m' \<le> 12" by simp
    have "(\<exists>r. calculate_next_due_date d n ''months'' = Inr (Some r)) \<longleftrightarrow> 1 \<le> y' \<and> y' \<le> 9999"
      using s by (auto simp: calculate_next_due_date_def relativedelta_months_def MAXYEAR_def)
    also have "\<dots> \<longleftrightarrow> 12 \<le> 12 * year d + month d + n - 1
                 \<and> 12 * year d + month d + n - 1 < 120000"
      using e by linarith
    finally show ?thesis .
  qed
  show ?thesis
  proof (intro conjI)
    show "year d = 2024 \<and> month d = 1 \<and> day d = 31 \<longrightarrow>
      calculate_next_due_date d 1 ''months''
        = Inr (Some (d\<lparr>year := 2024, month := 2, day := 29\<rparr>))"
      using jan by (rule impI)
    show "1 \<le> month d \<and> month d \<le> 12 \<longrightarrow>
        (\<forall>r. calculate_next_due_date d n ''months'' = Inr (Some r) \<longrightarrow>
           12 * year r + month r = 12 * year d + month d + n
           \<and> 1 \<le> month r \<and> month r \<le> 12
           \<and> day r = min (days_in_month (year r) (month r)) (day d)
           \<and> r = d\<lparr>year := year r, month := month r, day := day r\<rparr>)
        \<and> ((\<exists>r. calculate_next_due_date d n ''months'' = Inr (Some r))
             \<longleftrightarrow> 12 \<le> 12 * year d + month d + n - 1
                 \<and> 12 * year d + month d + n - 1 < 120000)"
    proof (rule impI, rule conjI)
      assume m: "1 \<le> month d \<and> month d \<le> 12"
      show "\<forall>r. calculate_next_due_date d n ''months'' = Inr (Some r) \<longrightarrow>
           12 * year r + month r = 12 * year d + month d + n
           \<and> 1 \<le> month r \<and> month r \<le> 12
           \<and> day r = min (days_in_month (year r) (month r)) (day d)
           \<and> r = d\<lparr>year := year r, month := month r, day := day r\<rparr>"
        using res [OF m] by (intro allI impI)
      show "(\<exists>r. calculate_next_due_date d n ''months'' = Inr (Some r))
             \<longleftrightarrow> 12 \<le> 12 * year d + month d + n - 1
                 \<and> 12 * year d + month d + n - 1 < 120000"
        using tot [OF m] .
    qed
  qed
qed

theorem month_addition_clamps_witness:
  "calculate_next_due_date (mk_datetime 2024 1 31 8 15 0 (Some (FixedOffset 3600))) 1 ''months''
     = Inr (Some (mk_datetime 2024 2 29 8 15 0 (Some (FixedOffset 3600))))
   \<and> (\<exists>r. calculate_next_due_date (mk_datetime 2023 10 31 0 0 0 None) 4 ''months'' = Inr (Some r)
          \<and> 12 * year r + month r = 12 * 2024 + 2 \<and> day r = min (days_in_month (year r) (month r)) 31)"
proof -
  have a: "calculate_next_due_date (mk_datetime 2024 1 31 8 15 0 (Some (FixedOffset 3600))) 1 ''months''
     = Inr (Some (mk_datetime 2024 2 29 8 15 0 (Some (FixedOffset 3600))))"
    using month_addition_clamps [of "mk_datetime 2024 1 31 8 15 0 (Some (FixedOffset 3600))" 1]
    by (simp add: mk_datetime_def)
  have b: "\<exists>r. calculate_next_due_date (mk_datetime 2023 10 31 0 0 0 None) 4 ''months'' = Inr (Some r)
          \<and> 12 * year r + month r = 12 * 2024 + 2 \<and> day r = min (days_in_month (year r) (month r)) 31"
    using month_addition_clamps [of "mk_datetime 2023 10 31 0 0 0 None" 4]
    by (simp add: mk_datetime_def) blast
  from a b show ?thesis by blast
qed














subsection \<open>The update command\<close>





subsection \<open>The confirmation button\<close>

lemma has_key_iff: "has_key d k \<longleftrightarrow> k \<in> fst ` set d"
  by (simp add: has_key_def map_of_eq_None_iff)

lemma map_of_fold_delete:
  "map_of (fold AList.delete xs al) k = (if k \<in> set xs then None else map_of al k)"
  by (induction xs arbitrary: al) (auto simp: delete_conv')

lemma keys_fold_delete: "fst ` set (fold AList.delete xs al) = fst ` set al - set xs"
proof (induction xs arbitrary: al)
  case Nil
  then show ?case by simp
next
  case (Cons x xs)
  have "fst ` set (AList.delete x al) = fst ` set al - {x}"
    by (auto simp: AList.delete_eq image_iff)
  with Cons show ?case by auto
qed

lemma distinct_fold_delete:
  "distinct (map fst al) \<Longrightarrow> distinct (map fst (fold AList.delete xs al))"
  by (induction xs arbitrary: al) (auto simp: distinct_delete)

subsubsection \<open>Writing the state and reading the icon\<close>

lemma icon_unconfirmed_state [simp]: "snd (icon_unconfirmed tid s) = s"
  by (simp add: icon_unconfirmed_def)

lemma icon_fields [simp]:
  "pending_confirmations (snd (icon now tid s)) = pending_confirmations s"
  "reset_timers (snd (icon now tid s)) = reset_timers s"
  "loop_timers (snd (icon now tid s)) = loop_timers s"
  "next_handle (snd (icon now tid s)) = next_handle s"
  "store_updates (snd (icon now tid s)) = store_updates s"
  "state_writes (snd (icon now tid s)) = state_writes s"
  by (auto simp: icon_def split: option.splits)

lemma icon_confirmed:
  "confirmed_tasks (snd (icon now tid s))
     = (if recently_confirmed now s tid then confirmed_tasks s
        else AList.delete tid (confirmed_tasks s))"
  by (auto simp: icon_def recently_confirmed_def map_of_eq_None_iff split: option.splits)

lemma async_write_ha_state_alt:
  "async_write_ha_state now tid s
     = (snd (icon now tid s))\<lparr>state_writes :=
          state_writes (snd (icon now tid s)) @ [(tid, fst (icon now tid s))]\<rparr>"
proof (cases "icon now tid s")
  case (Pair ic s')
  then show ?thesis by (simp add: async_write_ha_state_def del: icon_fields)
qed

lemma write_fields [simp]:
  "pending_confirmations (async_write_ha_state now tid s) = pending_confirmations s"
  "reset_timers (async_write_ha_state now tid s) = reset_timers s"
  "loop_timers (async_write_ha_state now tid s) = loop_timers s"
  "next_handle (async_write_ha_state now tid s) = next_handle s"
  "store_updates (async_write_ha_state now tid s) = store_updates s"
  by (simp_all add: async_write_ha_state_alt)

lemma write_confirmed:
  "confirmed_tasks (async_write_ha_state now tid s)
     = (if recently_confirmed now s tid then confirmed_tasks s
        else AList.delete tid (confirmed_tasks s))"
  by (simp add: async_write_ha_state_alt icon_confirmed)

lemma write_state_writes:
  "state_writes (async_write_ha_state now tid s) = state_writes s @ [(tid, fst (icon now tid s))]"
  by (simp add: async_write_ha_state_alt)

subsubsection \<open>Timers\<close>

lemma cancel_fields [simp]:
  "pending_confirmations (cancel hnd s) = pending_confirmations s"
  "confirmed_tasks (cancel hnd s) = confirmed_tasks s"
  "reset_timers (cancel hnd s) = reset_timers s"
  "next_handle (cancel hnd s) = next_handle s"
  "store_updates (cancel hnd s) = store_updates s"
  "state_writes (cancel hnd s) = state_writes s"
  by (simp_all add: cancel_def)

lemma cancel_keys [simp]: "map fst (loop_timers (cancel hnd s)) = map fst (loop_timers s)"
  by (auto simp: cancel_def)

lemma map_of_cancel:
  "map_of (loop_timers (cancel hnd s)) i
     = (if i = hnd then map_option (\<lambda>th. th\<lparr>cancelled := True\<rparr>) (map_of (loop_timers s) i)
        else map_of (loop_timers s) i)"
proof -
  have "map_of (map (\<lambda>(i, th). if i = hnd then (i, th\<lparr>cancelled := True\<rparr>) else (i, th)) al) i
     = (if i = hnd then map_option (\<lambda>th. th\<lparr>cancelled := True\<rparr>) (map_of al i)
        else map_of al i)" for al :: "(nat \<times> timer_handle) list"
    by (induction al) auto
  then show ?thesis by (simp add: cancel_def)
qed

lemma cancel_and_del_fields [simp]:
  "pending_confirmations (cancel_and_del_reset_timer tid s) = pending_confirmations s"
  "confirmed_tasks (cancel_and_del_reset_timer tid s) = confirmed_tasks s"
  "next_handle (cancel_and_del_reset_timer tid s) = next_handle s"
  "store_updates (cancel_and_del_reset_timer tid s) = store_updates s"
  "state_writes (cancel_and_del_reset_timer tid s) = state_writes s"
  "map fst (loop_timers (cancel_and_del_reset_timer tid s)) = map fst (loop_timers s)"
  by (simp_all add: cancel_and_del_reset_timer_def split: option.splits)

lemma cancel_and_del_reset_timers [simp]:
  "reset_timers (cancel_and_del_reset_timer tid s) = AList.delete tid (reset_timers s)"
  by (auto simp: cancel_and_del_reset_timer_def map_of_eq_None_iff split: option.splits)

lemma map_of_cancel_and_del:
  "map_of (loop_timers (cancel_and_del_reset_timer tid s)) i
     = (if map_of (reset_timers s) tid = Some i
        then map_option (\<lambda>th. th\<lparr>cancelled := True\<rparr>) (map_of (loop_timers s) i)
        else map_of (loop_timers s) i)"
  by (auto simp: cancel_and_del_reset_timer_def map_of_cancel split: option.splits)

lemma cancel_reset_timer_fields [simp]:
  "pending_confirmations (cancel_reset_timer tid s) = pending_confirmations s"
  "confirmed_tasks (cancel_reset_timer tid s) = confirmed_tasks s"
  "reset_timers (cancel_reset_timer tid s) = reset_timers s"
  "next_handle (cancel_reset_timer tid s) = next_handle s"
  "store_updates (cancel_reset_timer tid s) = store_updates s"
  "state_writes (cancel_reset_timer tid s) = state_writes s"
  "map fst (loop_timers (cancel_reset_timer tid s)) = map fst (loop_timers s)"
  by (simp_all add: cancel_reset_timer_def split: option.splits)

lemma map_of_cancel_reset_timer:
  "map_of (loop_timers (cancel_reset_timer tid s)) i
     = (if map_of (reset_timers s) tid = Some i
        then map_option (\<lambda>th. th\<lparr>cancelled := True\<rparr>) (map_of (loop_timers s) i)
        else map_of (loop_timers s) i)"
  by (auto simp: cancel_reset_timer_def map_of_cancel split: option.splits)

lemma call_later_fields [simp]:
  "fst (call_later dly c s) = next_handle s"
  "pending_confirmations (snd (call_later dly c s)) = pending_confirmations s"
  "confirmed_tasks (snd (call_later dly c s)) = confirmed_tasks s"
  "reset_timers (snd (call_later dly c s)) = reset_timers s"
  "next_handle (snd (call_later dly c s)) = Suc (next_handle s)"
  "store_updates (snd (call_later dly c s)) = store_updates s"
  "state_writes (snd (call_later dly c s)) = state_writes s"
  "loop_timers (snd (call_later dly c s))
     = loop_timers s @ [(next_handle s, \<lparr>callback_of = c, delay = dly, cancelled = False\<rparr>)]"
  by (simp_all add: call_later_def)


subsubsection \<open>The sweep\<close>

lemma expire_pending_fields [simp]:
  "pending_confirmations (expire_pending h tid s) = AList.delete tid (pending_confirmations s)"
  "reset_timers (expire_pending h tid s) = AList.delete tid (reset_timers s)"
  "next_handle (expire_pending h tid s) = next_handle s"
  "store_updates (expire_pending h tid s) = store_updates s"
  "map fst (loop_timers (expire_pending h tid s)) = map fst (loop_timers s)"
  by (simp_all add: expire_pending_def Let_def)

lemma map_of_expire_pending:
  "map_of (loop_timers (expire_pending h tid s)) i
     = (if map_of (reset_timers s) tid = Some i
        then map_option (\<lambda>th. th\<lparr>cancelled := True\<rparr>) (map_of (loop_timers s) i)
        else map_of (loop_timers s) i)"
  by (simp add: expire_pending_def Let_def map_of_cancel_and_del)

lemma recently_confirmed_cong:
  "confirmed_tasks s' = confirmed_tasks s \<Longrightarrow> recently_confirmed now s' = recently_confirmed now s"
  by (auto simp: recently_confirmed_def fun_eq_iff)

lemma expire_pending_confirmed:
  "confirmed_tasks (expire_pending h tid s)
     = (if tid \<in> set (button_entities h) \<and> \<not> recently_confirmed (dt_now h) s tid
        then AList.delete tid (confirmed_tasks s) else confirmed_tasks s)"
proof -
  have "recently_confirmed (dt_now h)
          (cancel_and_del_reset_timer tid
             (s\<lparr>pending_confirmations := AList.delete tid (pending_confirmations s)\<rparr>))
        = recently_confirmed (dt_now h) s"
    by (rule recently_confirmed_cong) simp
  then show ?thesis
    by (simp add: expire_pending_def Let_def write_confirmed)
qed

lemma fold_expire_pending_fields [simp]:
  "pending_confirmations (fold (expire_pending h) xs s) = fold AList.delete xs (pending_confirmations s)"
  "reset_timers (fold (expire_pending h) xs s) = fold AList.delete xs (reset_timers s)"
  "next_handle (fold (expire_pending h) xs s) = next_handle s"
  "store_updates (fold (expire_pending h) xs s) = store_updates s"
  "map fst (loop_timers (fold (expire_pending h) xs s)) = map fst (loop_timers s)"
  by (induction xs arbitrary: s) simp_all

lemma fold_expire_confirmed_fields [simp]:
  "pending_confirmations (fold expire_confirmed ys s) = pending_confirmations s"
  "reset_timers (fold expire_confirmed ys s) = reset_timers s"
  "loop_timers (fold expire_confirmed ys s) = loop_timers s"
  "next_handle (fold expire_confirmed ys s) = next_handle s"
  "store_updates (fold expire_confirmed ys s) = store_updates s"
  "state_writes (fold expire_confirmed ys s) = state_writes s"
  "confirmed_tasks (fold expire_confirmed ys s) = fold AList.delete ys (confirmed_tasks s)"
  by (induction ys arbitrary: s) (simp_all add: expire_confirmed_def)

lemma cleanup_alt:
  "cleanup h s =
     (let s1 = fold (expire_pending h)
                 (expired_keys (dt_now h) CONFIRMATION_TIMEOUT (pending_confirmations s)) s
      in fold expire_confirmed
           (expired_keys (dt_now h) CONFIRMED_DISPLAY_TIME (confirmed_tasks s1)) s1)"
  by (simp add: cleanup_def Let_def)

lemma cleanup_fields [simp]:
  "pending_confirmations (cleanup h s)
     = fold AList.delete (expired_keys (dt_now h) CONFIRMATION_TIMEOUT (pending_confirmations s))
         (pending_confirmations s)"
  "reset_timers (cleanup h s)
     = fold AList.delete (expired_keys (dt_now h) CONFIRMATION_TIMEOUT (pending_confirmations s))
         (reset_timers s)"
  "next_handle (cleanup h s) = next_handle s"
  "store_updates (cleanup h s) = store_updates s"
  "map fst (loop_timers (cleanup h s)) = map fst (loop_timers s)"
  by (simp_all add: cleanup_alt Let_def)

lemma in_expired_keys:
  "k \<in> set (expired_keys now limit al) \<longleftrightarrow> (\<exists>ts. (k, ts) \<in> set al \<and> dt_sub now ts > limit)"
  by (auto simp: expired_keys_def image_iff)

lemma in_expired_keys_distinct:
  "distinct (map fst al) \<Longrightarrow>
     k \<in> set (expired_keys now limit al) \<longleftrightarrow> (\<exists>ts. map_of al k = Some ts \<and> dt_sub now ts > limit)"
  by (auto simp: in_expired_keys)

lemma dt_sub_self [simp]: "dt_sub a a = 0"
  by (simp add: dt_sub_def)

lemma timeouts_pos [simp]:
  "0 < CONFIRMATION_TIMEOUT" "0 < CONFIRMED_DISPLAY_TIME"
  "0 \<le> CONFIRMATION_TIMEOUT" "0 \<le> CONFIRMED_DISPLAY_TIME"
  by (simp_all add: CONFIRMATION_TIMEOUT_def CONFIRMED_DISPLAY_TIME_def timedelta_seconds_def)


lemma map_option_cancel_idem:
  "map_option (\<lambda>th. th\<lparr>cancelled := True\<rparr>) (map_option (\<lambda>th. th\<lparr>cancelled := True\<rparr>) x)
     = map_option (\<lambda>th. th\<lparr>cancelled := True\<rparr>) x"
  by (cases x) simp_all

lemma map_of_fold_expire_pending:
  "map_of (loop_timers (fold (expire_pending h) xs s)) i
     = (if \<exists>k \<in> set xs. map_of (reset_timers s) k = Some i
        then map_option (\<lambda>th. th\<lparr>cancelled := True\<rparr>) (map_of (loop_timers s) i)
        else map_of (loop_timers s) i)"
proof (induction xs arbitrary: s)
  case Nil
  then show ?case by simp
next
  case (Cons x xs)
  have "(\<exists>k \<in> set xs. map_of (AList.delete x (reset_timers s)) k = Some i)
          \<longleftrightarrow> (\<exists>k \<in> set xs. k \<noteq> x \<and> map_of (reset_timers s) k = Some i)"
    by (auto simp: delete_conv')
  then show ?case
    using Cons [of "expire_pending h x s"]
    by (auto simp: map_of_expire_pending map_option_cancel_idem)
qed

lemma map_of_cleanup_loop:
  "map_of (loop_timers (cleanup h s)) i
     = (if \<exists>k \<in> set (expired_keys (dt_now h) CONFIRMATION_TIMEOUT (pending_confirmations s)).
             map_of (reset_timers s) k = Some i
        then map_option (\<lambda>th. th\<lparr>cancelled := True\<rparr>) (map_of (loop_timers s) i)
        else map_of (loop_timers s) i)"
  by (simp add: cleanup_alt Let_def map_of_fold_expire_pending)

text \<open>The confirmed table only loses entries in a sweep, and only stale ones.\<close>

lemma map_of_delete_cases:
  "map_of (AList.delete x al) k = None \<or> map_of (AList.delete x al) k = map_of al k"
  by (auto simp: delete_conv')

lemma fold_expire_pending_confirmed:
  "map_of (confirmed_tasks (fold (expire_pending h) xs s)) k = None
   \<or> map_of (confirmed_tasks (fold (expire_pending h) xs s)) k = map_of (confirmed_tasks s) k"
proof (induction xs arbitrary: s)
  case Nil
  then show ?case by simp
next
  case (Cons x xs)
  from Cons [of "expire_pending h x s"] map_of_delete_cases [of x "confirmed_tasks s" k]
  show ?case by (auto simp: expire_pending_confirmed split: if_splits)
qed

lemma cleanup_confirmed:
  "map_of (confirmed_tasks (cleanup h s)) k = None
   \<or> map_of (confirmed_tasks (cleanup h s)) k = map_of (confirmed_tasks s) k"
  using fold_expire_pending_confirmed [of h _ s k]
  by (auto simp: cleanup_alt Let_def map_of_fold_delete)

lemma fold_expire_pending_keeps_recent:
  "recently_confirmed (dt_now h) s k \<Longrightarrow>
     map_of (confirmed_tasks (fold (expire_pending h) xs s)) k = map_of (confirmed_tasks s) k"
proof (induction xs arbitrary: s)
  case Nil
  then show ?case by simp
next
  case (Cons x xs)
  have eq: "map_of (confirmed_tasks (expire_pending h x s)) k = map_of (confirmed_tasks s) k"
    using Cons.prems by (auto simp: expire_pending_confirmed delete_conv')
  then have "recently_confirmed (dt_now h) (expire_pending h x s) k"
    using Cons.prems by (simp add: recently_confirmed_def)
  from Cons.IH [OF this] eq show ?case by simp
qed

lemma fold_expire_pending_distinct_confirmed:
  "distinct (map fst (confirmed_tasks s)) \<Longrightarrow>
     distinct (map fst (confirmed_tasks (fold (expire_pending h) xs s)))"
  by (induction xs arbitrary: s) (simp_all add: expire_pending_confirmed distinct_delete)

lemma cleanup_keeps_recent:
  assumes d: "distinct (map fst (confirmed_tasks s))"
      and r: "recently_confirmed (dt_now h) s k"
  shows "map_of (confirmed_tasks (cleanup h s)) k = map_of (confirmed_tasks s) k"
proof -
  let ?s1 = "fold (expire_pending h)
               (expired_keys (dt_now h) CONFIRMATION_TIMEOUT (pending_confirmations s)) s"
  have eq: "map_of (confirmed_tasks ?s1) k = map_of (confirmed_tasks s) k"
    using fold_expire_pending_keeps_recent [OF r] .
  have "k \<notin> set (expired_keys (dt_now h) CONFIRMED_DISPLAY_TIME (confirmed_tasks ?s1))"
    using fold_expire_pending_distinct_confirmed [OF d, of h] r
    by (auto simp: in_expired_keys_distinct eq recently_confirmed_def)
  then show ?thesis by (simp add: cleanup_alt Let_def map_of_fold_delete eq)
qed


subsubsection \<open>The three branches of a press\<close>

lemma recently_confirmed_update [simp]:
  "recently_confirmed now (s\<lparr>confirmed_tasks := AList.update tid now (confirmed_tasks s')\<rparr>) tid"
  by (simp add: recently_confirmed_def update_conv')

lemma recently_confirmed_pending_upd [simp]:
  "recently_confirmed now (s\<lparr>pending_confirmations := p\<rparr>) = recently_confirmed now s"
  by (rule recently_confirmed_cong) simp

lemma recently_confirmed_cancel_and_del [simp]:
  "recently_confirmed now (cancel_and_del_reset_timer tid s) = recently_confirmed now s"
  by (rule recently_confirmed_cong) simp

lemma confirm_fields:
  "pending_confirmations (confirm h t s) = AList.delete (task_id t) (pending_confirmations s)"
  "reset_timers (confirm h t s) = AList.delete (task_id t) (reset_timers s)"
  "confirmed_tasks (confirm h t s) = AList.update (task_id t) (dt_now h) (confirmed_tasks s)"
  "store_updates (confirm h t s)
     = store_updates s
       @ (if store_available h
          then [(task_id t,
                 if interval_type t = Some ''kilometers'' \<or> interval_type t = Some ''miles''
                 then get_current_odometer h t else None)]
          else [])"
  by (simp_all add: confirm_def Let_def write_confirmed)

lemma restart_fields:
  "pending_confirmations (restart h t s)
     = AList.update (task_id t) (dt_now h) (pending_confirmations s)"
  "reset_timers (restart h t s)
     = AList.update (task_id t) (next_handle s) (AList.delete (task_id t) (reset_timers s))"
  "confirmed_tasks (restart h t s)
     = (if recently_confirmed (dt_now h) s (task_id t) then confirmed_tasks s
        else AList.delete (task_id t) (confirmed_tasks s))"
  "store_updates (restart h t s) = store_updates s"
  "next_handle (restart h t s) = Suc (next_handle s)"
  "loop_timers (restart h t s)
     = loop_timers (cancel_and_del_reset_timer (task_id t) s)
       @ [(next_handle s, \<lparr>callback_of = ResetIcon (task_id t), delay = CONFIRMATION_TIMEOUT,
                            cancelled = False\<rparr>)]"
  by (simp_all add: restart_def Let_def write_confirmed case_prod_beta)

lemma first_press_fields:
  "pending_confirmations (first_press h t s)
     = AList.update (task_id t) (dt_now h) (pending_confirmations s)"
  "reset_timers (first_press h t s) = AList.update (task_id t) (next_handle s) (reset_timers s)"
  "confirmed_tasks (first_press h t s)
     = (if recently_confirmed (dt_now h) s (task_id t) then confirmed_tasks s
        else AList.delete (task_id t) (confirmed_tasks s))"
  "store_updates (first_press h t s) = store_updates s"
  "next_handle (first_press h t s) = Suc (next_handle s)"
  by (simp_all add: first_press_def Let_def write_confirmed case_prod_beta)


subsubsection \<open>Consistency is kept\<close>

lemma in_set_updateD: "(a, b) \<in> set (AList.update k v al) \<Longrightarrow> (a, b) \<in> set al \<or> b = v"
  by (induction al) (auto split: if_splits)

lemma in_set_deleteD: "(a, b) \<in> set (AList.delete k al) \<Longrightarrow> (a, b) \<in> set al"
  by (simp add: AList.delete_eq)

lemma in_set_fold_deleteD: "(a, b) \<in> set (fold AList.delete xs al) \<Longrightarrow> (a, b) \<in> set al"
  by (induction xs arbitrary: al) (auto dest: in_set_deleteD)

lemma set_map_fst: "fst ` set al = set (map fst al)"
  by simp

lemma consistent_initial: "consistent initial_state"
  by (simp add: consistent_def initial_state_def)

lemma consistent_icon: "consistent s \<Longrightarrow> consistent (snd (icon now tid s))"
  by (auto simp: consistent_def icon_confirmed distinct_delete)

lemma consistent_write: "consistent s \<Longrightarrow> consistent (async_write_ha_state now tid s)"
  by (auto simp: consistent_def write_confirmed distinct_delete simp del: set_map
        simp add: set_map_fst)

lemma consistent_expire_pending: "consistent s \<Longrightarrow> consistent (expire_pending h tid s)"
  by (auto simp: consistent_def expire_pending_confirmed distinct_delete set_map_fst
        simp del: set_map dest!: in_set_deleteD)

lemma consistent_fold_expire_pending:
  "consistent s \<Longrightarrow> consistent (fold (expire_pending h) xs s)"
  by (induction xs arbitrary: s) (simp_all add: consistent_expire_pending)

lemma consistent_cleanup: "consistent s \<Longrightarrow> consistent (cleanup h s)"
proof -
  assume "consistent s"
  then have c: "consistent (fold (expire_pending h)
      (expired_keys (dt_now h) CONFIRMATION_TIMEOUT (pending_confirmations s)) s)"
    (is "consistent ?s1")
    by (rule consistent_fold_expire_pending)
  then show ?thesis
    unfolding cleanup_alt Let_def
    by (auto simp: consistent_def distinct_fold_delete set_map_fst simp del: set_map
          dest!: in_set_fold_deleteD)
qed

lemma consistent_confirm: "consistent s \<Longrightarrow> consistent (confirm h t s)"
  by (auto simp: consistent_def confirm_def Let_def write_confirmed distinct_delete
        distinct_update set_map_fst less_Suc_eq simp del: set_map dest!: in_set_deleteD)

lemma consistent_restart: "consistent s \<Longrightarrow> consistent (restart h t s)"
  by (auto simp: consistent_def restart_fields distinct_delete distinct_update set_map_fst
        less_Suc_eq simp del: set_map dest!: in_set_updateD in_set_deleteD)

lemma first_press_loop_keys:
  "map fst (loop_timers (first_press h t s)) = map fst (loop_timers s) @ [next_handle s]"
  by (simp add: first_press_def Let_def case_prod_beta)

lemma consistent_first_press: "consistent s \<Longrightarrow> consistent (first_press h t s)"
  by (auto simp: consistent_def first_press_fields first_press_loop_keys distinct_delete
        distinct_update set_map_fst less_Suc_eq simp del: set_map dest!: in_set_updateD)

lemma consistent_async_press: "consistent s \<Longrightarrow> consistent (async_press h t s)"
  by (auto simp: async_press_def consistent_cleanup consistent_confirm consistent_restart
        consistent_first_press split: option.splits)


subsubsection \<open>Presses\<close>

lemma not_expired_now:
  assumes d: "distinct (map fst al)" and m: "map_of al k = Some now"
  shows "k \<notin> set (expired_keys now CONFIRMATION_TIMEOUT al)"
  using d m timeouts_pos(1) by (auto simp: in_expired_keys_distinct simp del: timeouts_pos)

lemma first_press_pending:
  assumes cons: "consistent s"
      and fresh: "\<not> pending_first_press s (task_id t)"
  shows "map_of (pending_confirmations (async_press h t s)) (task_id t) = Some (dt_now h)"
    and "store_updates (async_press h t s) = store_updates s"
    and "consistent (async_press h t s)"
proof -
  from fresh have n: "map_of (pending_confirmations s) (task_id t) = None"
    by (simp add: pending_first_press_def has_key_def)
  then have ap: "async_press h t s = cleanup h (first_press h t s)"
    by (simp add: async_press_def)
  from cons have d: "distinct (map fst (pending_confirmations (first_press h t s)))"
    by (simp add: first_press_fields consistent_def distinct_update)
  have m: "map_of (pending_confirmations (first_press h t s)) (task_id t) = Some (dt_now h)"
    by (simp add: first_press_fields update_conv')
  from not_expired_now [OF d m] m
  show "map_of (pending_confirmations (async_press h t s)) (task_id t) = Some (dt_now h)"
    by (simp add: ap map_of_fold_delete)
  show "store_updates (async_press h t s) = store_updates s"
    by (simp add: ap first_press_fields)
  show "consistent (async_press h t s)"
    using cons by (rule consistent_async_press)
qed

lemma confirming_press:
  assumes cons: "consistent s"
      and pend: "map_of (pending_confirmations s) (task_id t) = Some t0"
      and intime: "dt_sub (dt_now h) t0 \<le> CONFIRMATION_TIMEOUT"
  shows "store_updates (async_press h t s)
           = store_updates s
             @ (if store_available h
                then [(task_id t,
                       if interval_type t = Some ''kilometers'' \<or> interval_type t = Some ''miles''
                       then get_current_odometer h t else None)]
                else [])"
    and "\<not> pending_first_press (async_press h t s) (task_id t)"
    and "map_of (confirmed_tasks (async_press h t s)) (task_id t) = Some (dt_now h)"
proof -
  from pend intime have ap: "async_press h t s = cleanup h (confirm h t s)"
    by (simp add: async_press_def)
  show "store_updates (async_press h t s)
           = store_updates s
             @ (if store_available h
                then [(task_id t,
                       if interval_type t = Some ''kilometers'' \<or> interval_type t = Some ''miles''
                       then get_current_odometer h t else None)]
                else [])"
    by (simp add: ap confirm_fields)
  show "\<not> pending_first_press (async_press h t s) (task_id t)"
    by (simp add: ap pending_first_press_def has_key_def map_of_fold_delete confirm_fields
          delete_conv')
  from cons have d: "distinct (map fst (confirmed_tasks (confirm h t s)))"
    by (simp add: confirm_fields consistent_def distinct_update)
  have r: "recently_confirmed (dt_now h) (confirm h t s) (task_id t)"
    by (simp add: recently_confirmed_def confirm_fields update_conv')
  from cleanup_keeps_recent [OF d r]
  show "map_of (confirmed_tasks (async_press h t s)) (task_id t) = Some (dt_now h)"
    by (simp add: ap confirm_fields update_conv')
qed

lemma map_of_append_fresh:
  "k \<notin> fst ` set al \<Longrightarrow> map_of (al @ [(k, v)]) k = Some v"
  by (simp add: map_add_def map_of_eq_None_iff [symmetric] del: map_of_eq_None_iff)

lemma map_of_append_old:
  "map_of al k = Some v \<Longrightarrow> map_of (al @ bl) k = Some v"
  by (simp add: map_add_def)

lemma fold_expire_pending_writes:
  "\<exists>ws. state_writes (fold (expire_pending h) xs s) = state_writes s @ ws"
proof (induction xs arbitrary: s)
  case Nil
  then show ?case by simp
next
  case (Cons x xs)
  from Cons [of "expire_pending h x s"] show ?case
    by (auto simp: expire_pending_def Let_def write_state_writes)
qed

lemma cleanup_writes: "\<exists>ws. state_writes (cleanup h s) = state_writes s @ ws"
  using fold_expire_pending_writes [of h _ s] by (simp add: cleanup_alt Let_def)

lemma icon_pending_not_confirmed:
  assumes "\<not> recently_confirmed now s tid" and "has_key (pending_confirmations s) tid"
  shows "fst (icon now tid s) = ''mdi:alert-circle''"
  using assms
  by (auto simp: icon_def icon_unconfirmed_def recently_confirmed_def split: option.splits)

text \<open>
  C3, as the specification states it: two presses within the timeout give exactly
  one store update, and a distance-based task passes a sampled odometer reading. The
  code guards the update with \<^verbatim>\<open>if store:\<close>, so without a store the second press
  confirms and updates nothing; and a distance-based task without an odometer entity
  passes no reading.
\<close>

theorem double_press_commits_once_counterexample:
  "dt_sub (dt_now (example_hass 2)) (dt_now (example_hass 0)) \<le> CONFIRMATION_TIMEOUT
   \<and> store_updates
        (async_press ((example_hass 2)\<lparr>store_available := False\<rparr>)
           (example_task ''days'' 30 ''2024-01-31T00:00:00+01:00'')
           (async_press (example_hass 0)
              (example_task ''days'' 30 ''2024-01-31T00:00:00+01:00'') initial_state)) = []
   \<and> store_updates
        (async_press (example_hass 2) (example_km_task (Some 7000) None)
           (async_press (example_hass 0) (example_km_task (Some 7000) None) initial_state))
       = [(''oil'', None)]"
  by code_simp

text \<open>
  C3, amended. A first press of a task id that is not pending, followed by a second
  press within the timeout (nothing in between): the first press updates nothing, and
  the second invokes \<^verbatim>\<open>update_last_performed\<close> exactly once when the store is
  available and not at all otherwise. The odometer argument is the reading sampled
  at the second press for a distance-based task (none when no entity is configured or
  its state is missing, unknown, unavailable or not a number) and none for any other
  task. Afterwards the task id is not pending and is recently confirmed.
\<close>

theorem double_press_commits_once:
  assumes cons: "consistent s"
      and fresh: "\<not> pending_first_press s (task_id t)"
      and intime: "dt_sub (dt_now h1) (dt_now h0) \<le> CONFIRMATION_TIMEOUT"
  shows "store_updates (async_press h0 t s) = store_updates s
       \<and> store_updates (async_press h1 t (async_press h0 t s))
           = store_updates s
             @ (if store_available h1
                then [(task_id t,
                       if interval_type t = Some ''kilometers'' \<or> interval_type t = Some ''miles''
                       then get_current_odometer h1 t else None)]
                else [])
       \<and> \<not> pending_first_press (async_press h1 t (async_press h0 t s)) (task_id t)
       \<and> recently_confirmed (dt_now h1) (async_press h1 t (async_press h0 t s)) (task_id t)"
proof -
  note f = first_press_pending [OF cons fresh, of h0]
  note c = confirming_press [OF f(3) f(1) intime]
  from f(2) c show ?thesis
    by (simp add: recently_confirmed_def)
qed

theorem double_press_commits_once_witness:
  "consistent initial_state
   \<and> \<not> pending_first_press initial_state ''oil''
   \<and> dt_sub (dt_now (example_hass 2)) (dt_now (example_hass 0)) \<le> CONFIRMATION_TIMEOUT
   \<and> store_updates
        (async_press (example_hass 2) (example_km_task (Some 7000) (Some ''sensor.car_odometer''))
           (async_press (example_hass 0)
              (example_km_task (Some 7000) (Some ''sensor.car_odometer'')) initial_state))
       = [(''oil'', Some 12500)]"
proof -
  let ?t = "example_km_task (Some 7000) (Some ''sensor.car_odometer'')"
  have c: "consistent initial_state"
    by (rule consistent_initial)
  have f: "\<not> pending_first_press initial_state (task_id ?t)"
    by (simp add: pending_first_press_def has_key_def initial_state_def)
  have i: "dt_sub (dt_now (example_hass 2)) (dt_now (example_hass 0)) \<le> CONFIRMATION_TIMEOUT"
    by code_simp
  have o: "get_current_odometer (example_hass 2) ?t = Some 12500"
    by (simp add: get_current_odometer_def example_hass_def example_km_task_def
          example_states_def example_float_def)
  from double_press_commits_once [OF c f i] o c f i show ?thesis
    by (simp add: example_km_task_def example_hass_def initial_state_def)
qed

text \<open>
  C6. For a task id with a recorded first press (and no confirmed entry within its
  display time), a press more than the timeout after the first press commits nothing
  and updates no store: it is recorded as a new first press at the time of the press,
  a new timeout timer is armed and registered for the task id, the old timer is
  cancelled, and the button writes and shows the pending icon.
\<close>

theorem stale_second_press_restarts:
  assumes cons: "consistent s"
      and pend: "map_of (pending_confirmations s) (task_id t) = Some t0"
      and stale: "dt_sub (dt_now h) t0 > CONFIRMATION_TIMEOUT"
      and idle: "\<not> recently_confirmed (dt_now h) s (task_id t)"
  shows "store_updates (async_press h t s) = store_updates s
       \<and> map_of (pending_confirmations (async_press h t s)) (task_id t) = Some (dt_now h)
       \<and> map_of (reset_timers (async_press h t s)) (task_id t) = Some (next_handle s)
       \<and> map_of (loop_timers (async_press h t s)) (next_handle s)
           = Some \<lparr>callback_of = ResetIcon (task_id t), delay = CONFIRMATION_TIMEOUT,
                    cancelled = False\<rparr>
       \<and> (\<forall>hnd th. map_of (reset_timers s) (task_id t) = Some hnd
                    \<and> map_of (loop_timers s) hnd = Some th
             \<longrightarrow> map_of (loop_timers (async_press h t s)) hnd = Some (th\<lparr>cancelled := True\<rparr>))
       \<and> (\<exists>ws. state_writes (async_press h t s)
                  = state_writes s @ (task_id t, ''mdi:alert-circle'') # ws)
       \<and> fst (icon (dt_now h) (task_id t) (async_press h t s)) = ''mdi:alert-circle''"
proof -
  let ?tid = "task_id t" and ?nh = "next_handle s" and ?sr = "restart h t s"
  let ?xs = "expired_keys (dt_now h) CONFIRMATION_TIMEOUT (pending_confirmations ?sr)"
  from pend stale have ap: "async_press h t s = cleanup h ?sr"
    by (simp add: async_press_def)
  from cons have d: "distinct (map fst (pending_confirmations ?sr))"
    by (simp add: restart_fields consistent_def distinct_update)
  have m: "map_of (pending_confirmations ?sr) ?tid = Some (dt_now h)"
    by (simp add: restart_fields update_conv')
  from not_expired_now [OF d m] have nx: "?tid \<notin> set ?xs" .
  have old: "i < ?nh" if "map_of (reset_timers s) k = Some i" for k i
    using cons map_of_SomeD [OF that] by (force simp: consistent_def)
  have keys: "?nh \<notin> fst ` set (loop_timers (cancel_and_del_reset_timer ?tid s))"
    using cons by (auto simp: consistent_def set_map_fst simp del: set_map)
  have nocancel: "\<not> (\<exists>k \<in> set ?xs. map_of (reset_timers ?sr) k = Some ?nh)"
  proof
    assume "\<exists>k \<in> set ?xs. map_of (reset_timers ?sr) k = Some ?nh"
    then obtain k where k: "k \<in> set ?xs" "map_of (reset_timers ?sr) k = Some ?nh" by blast
    with nx have ne: "k \<noteq> ?tid" by auto
    with k have "map_of (reset_timers s) k = Some ?nh"
      by (simp add: restart_fields update_conv' delete_conv')
    from old [OF this] show False by simp
  qed
  have 1: "store_updates (async_press h t s) = store_updates s"
    by (simp add: ap restart_fields)
  have 2: "map_of (pending_confirmations (async_press h t s)) ?tid = Some (dt_now h)"
    using nx m by (simp add: ap map_of_fold_delete)
  have 3: "map_of (reset_timers (async_press h t s)) ?tid = Some ?nh"
    using nx by (simp add: ap map_of_fold_delete restart_fields update_conv')
  have 4: "map_of (loop_timers (async_press h t s)) ?nh
           = Some \<lparr>callback_of = ResetIcon ?tid, delay = CONFIRMATION_TIMEOUT,
                    cancelled = False\<rparr>"
    using nocancel map_of_append_fresh [OF keys]
    by (simp add: ap map_of_cleanup_loop restart_fields)
  have 5: "map_of (loop_timers (async_press h t s)) hnd = Some (th\<lparr>cancelled := True\<rparr>)"
    if "map_of (reset_timers s) ?tid = Some hnd \<and> map_of (loop_timers s) hnd = Some th"
    for hnd th
  proof -
    from that have "map_of (loop_timers (cancel_and_del_reset_timer ?tid s)) hnd
                      = Some (th\<lparr>cancelled := True\<rparr>)"
      by (simp add: map_of_cancel_and_del)
    then have "map_of (loop_timers ?sr) hnd = Some (th\<lparr>cancelled := True\<rparr>)"
      by (simp add: restart_fields map_of_append_old)
    then show ?thesis
      by (simp add: ap map_of_cleanup_loop)
  qed
  have w: "fst (icon (dt_now h) ?tid
             ((cancel_and_del_reset_timer ?tid s)\<lparr>pending_confirmations :=
                 AList.update ?tid (dt_now h) (pending_confirmations s)\<rparr>))
           = ''mdi:alert-circle''"
    using idle
    by (intro icon_pending_not_confirmed) (simp_all add: has_key_def update_conv')
  have "\<exists>ws. state_writes ?sr = state_writes s @ [(?tid, ''mdi:alert-circle'')] @ ws"
    using w by (simp add: restart_def Let_def case_prod_beta write_state_writes)
  with cleanup_writes [of h ?sr]
  have 6: "\<exists>ws. state_writes (async_press h t s)
                  = state_writes s @ (?tid, ''mdi:alert-circle'') # ws"
    by (auto simp: ap)
  have "map_of (confirmed_tasks ?sr) ?tid = None"
    using idle by (simp add: restart_fields delete_conv')
  with cleanup_confirmed [of h ?sr ?tid]
  have "map_of (confirmed_tasks (async_press h t s)) ?tid = None"
    by (auto simp: ap)
  then have "\<not> recently_confirmed (dt_now h) (async_press h t s) ?tid"
    by (simp add: recently_confirmed_def)
  moreover from 2 have "has_key (pending_confirmations (async_press h t s)) ?tid"
    by (simp add: has_key_def)
  ultimately have 7: "fst (icon (dt_now h) ?tid (async_press h t s)) = ''mdi:alert-circle''"
    by (rule icon_pending_not_confirmed)
  from 1 2 3 4 5 6 7 show ?thesis by blast
qed

theorem stale_second_press_restarts_witness:
  "consistent (async_press (example_hass 0) (example_task ''days'' 30 []) initial_state)
   \<and> dt_sub (dt_now (example_hass 6)) (dt_now (example_hass 0)) > CONFIRMATION_TIMEOUT
   \<and> store_updates
        (async_press (example_hass 6) (example_task ''days'' 30 [])
           (async_press (example_hass 0) (example_task ''days'' 30 []) initial_state)) = []
   \<and> map_of (pending_confirmations
        (async_press (example_hass 6) (example_task ''days'' 30 [])
           (async_press (example_hass 0) (example_task ''days'' 30 []) initial_state))) ''filter''
       = Some (dt_now (example_hass 6))
   \<and> fst (icon (dt_now (example_hass 6)) ''filter''
        (async_press (example_hass 6) (example_task ''days'' 30 [])
           (async_press (example_hass 0) (example_task ''days'' 30 []) initial_state)))
       = ''mdi:alert-circle''"
proof -
  let ?t = "example_task ''days'' 30 []"
  let ?s = "async_press (example_hass 0) ?t initial_state"
  have c: "consistent ?s"
    by (intro consistent_async_press consistent_initial)
  have p: "map_of (pending_confirmations ?s) (task_id ?t) = Some (dt_now (example_hass 0))"
    by code_simp
  have st: "dt_sub (dt_now (example_hass 6)) (dt_now (example_hass 0)) > CONFIRMATION_TIMEOUT"
    by code_simp
  have i: "\<not> recently_confirmed (dt_now (example_hass 6)) ?s (task_id ?t)"
    by code_simp
  have e: "store_updates ?s = []"
    by code_simp
  have tid: "task_id ?t = ''filter''"
    by (simp add: example_task_def)
  from stale_second_press_restarts [OF c p st i] c st show ?thesis
    unfolding e tid by simp
qed

subsubsection \<open>Exclusive phases\<close>

lemma exclusive_iff:
  "exclusive s \<longleftrightarrow>
     (\<forall>tid. map_of (pending_confirmations s) tid = None \<or> map_of (confirmed_tasks s) tid = None)"
  by (auto simp: exclusive_def has_key_def map_of_eq_None_iff simp del: set_map
        simp add: set_map_fst [symmetric])

lemma exclusive_shrink:
  assumes "exclusive s"
      and "\<And>k. map_of (pending_confirmations s') k = None
                \<or> map_of (pending_confirmations s') k = map_of (pending_confirmations s) k"
      and "\<And>k. map_of (confirmed_tasks s') k = None
                \<or> map_of (confirmed_tasks s') k = map_of (confirmed_tasks s) k"
  shows "exclusive s'"
  unfolding exclusive_iff
proof
  fix tid
  from assms(1) have "map_of (pending_confirmations s) tid = None
      \<or> map_of (confirmed_tasks s) tid = None"
    by (simp add: exclusive_iff)
  with assms(2) [of tid] assms(3) [of tid]
  show "map_of (pending_confirmations s') tid = None \<or> map_of (confirmed_tasks s') tid = None"
    by auto
qed

lemma exclusive_cleanup: "exclusive s \<Longrightarrow> exclusive (cleanup h s)"
proof (rule exclusive_shrink)
  fix k
  show "map_of (pending_confirmations (cleanup h s)) k = None
        \<or> map_of (pending_confirmations (cleanup h s)) k = map_of (pending_confirmations s) k"
    by (simp add: map_of_fold_delete)
  show "map_of (confirmed_tasks (cleanup h s)) k = None
        \<or> map_of (confirmed_tasks (cleanup h s)) k = map_of (confirmed_tasks s) k"
    by (rule cleanup_confirmed)
qed

lemma exclusive_icon: "exclusive s \<Longrightarrow> exclusive (snd (icon now tid s))"
  by (rule exclusive_shrink) (auto simp: icon_confirmed delete_conv')

lemma exclusive_write: "exclusive s \<Longrightarrow> exclusive (async_write_ha_state now tid s)"
  by (rule exclusive_shrink) (auto simp: write_confirmed delete_conv')

lemma reset_icon_fields:
  "pending_confirmations (reset_icon h tid s) = AList.delete tid (pending_confirmations s)"
  "reset_timers (reset_icon h tid s)
     = (if has_key (pending_confirmations s) tid then AList.delete tid (reset_timers s)
        else reset_timers s)"
  "store_updates (reset_icon h tid s) = store_updates s"
  "next_handle (reset_icon h tid s) = next_handle s"
  "loop_timers (reset_icon h tid s) = loop_timers s"
  by (auto simp: reset_icon_def Let_def has_key_iff)

lemma reset_icon_confirmed:
  "confirmed_tasks (reset_icon h tid s)
     = (if has_key (pending_confirmations s) tid \<and> tid \<in> set (button_entities h)
           \<and> \<not> recently_confirmed (dt_now h) s tid
        then AList.delete tid (confirmed_tasks s) else confirmed_tasks s)"
proof -
  have "recently_confirmed (dt_now h) (s\<lparr>pending_confirmations := p, reset_timers := r\<rparr>)
          = recently_confirmed (dt_now h) s" for p r
    by (rule recently_confirmed_cong) simp
  then show ?thesis
    by (auto simp: reset_icon_def Let_def write_confirmed)
qed

lemma exclusive_reset_icon: "exclusive s \<Longrightarrow> exclusive (reset_icon h tid s)"
  by (rule exclusive_shrink) (auto simp: reset_icon_fields reset_icon_confirmed delete_conv')

lemma exclusive_fire: "exclusive s \<Longrightarrow> exclusive (fire h hnd s)"
proof -
  assume e: "exclusive s"
  have u: "exclusive (s\<lparr>loop_timers := l\<rparr>)" for l
    using e by (simp add: exclusive_def)
  show ?thesis
    using e
    by (auto simp: fire_def Let_def run_callback_def u exclusive_reset_icon exclusive_write
          split: option.splits callback.splits)
qed

lemma exclusive_confirm: "exclusive s \<Longrightarrow> exclusive (confirm h t s)"
  by (auto simp: exclusive_iff confirm_fields delete_conv' update_conv')

lemma exclusive_restart:
  "exclusive s \<Longrightarrow> \<not> recently_confirmed (dt_now h) s (task_id t) \<Longrightarrow> exclusive (restart h t s)"
  by (auto simp: exclusive_iff restart_fields delete_conv' update_conv')

lemma exclusive_first_press:
  "exclusive s \<Longrightarrow> \<not> recently_confirmed (dt_now h) s (task_id t)
     \<Longrightarrow> exclusive (first_press h t s)"
  by (auto simp: exclusive_iff first_press_fields delete_conv' update_conv')

lemma exclusive_async_press:
  "exclusive s \<Longrightarrow> \<not> recently_confirmed (dt_now h) s (task_id t)
     \<Longrightarrow> exclusive (async_press h t s)"
  by (auto simp: async_press_def exclusive_cleanup exclusive_confirm exclusive_restart
        exclusive_first_press split: option.splits)

text \<open>
  C2, as the specification states it: a task id is never at once pending and
  recently confirmed. After three presses of one button at 0, 2 and 3 seconds it is:
  the third press finds the id confirmed but not pending and records a first press,
  and the confirmed entry of second 2 is still within its display time.
\<close>

theorem phases_exclusive_counterexample:
  "pending_first_press (last (trace example_three_presses initial_state)) ''filter''
   \<and> recently_confirmed (dt_now (example_hass 3))
        (last (trace example_three_presses initial_state)) ''filter''"
  by code_simp

text \<open>
  C2, amended. Starting from tables in which no task id is in both, after any
  sequence of presses, timer firings and icon reads in which no press arrives for a
  task id whose confirmed entry is within its display time, no task id is in both
  the pending table and the confirmed table, at any point of the sequence.
\<close>

theorem phases_exclusive_without_press_while_confirmed:
  assumes "exclusive s" and "no_press_while_confirmed es s"
  shows "\<forall>s' \<in> set (trace es s). exclusive s'"
  using assms
proof (induction es arbitrary: s)
  case Nil
  then show ?case by simp
next
  case (Cons e es)
  obtain h ev where e: "e = (h, ev)" by (cases e)
  have "exclusive (step e s) \<and> no_press_while_confirmed es (step e s)"
  proof (cases ev)
    case (Press t)
    with Cons.prems e show ?thesis by (simp add: exclusive_async_press)
  next
    case (Fire hnd)
    with Cons.prems e show ?thesis by (simp add: exclusive_fire)
  next
    case (ReadIcon tid)
    with Cons.prems e show ?thesis by (simp add: exclusive_icon)
  qed
  with Cons.IH [of "step e s"] Cons.prems(1) show ?case by simp
qed

theorem phases_exclusive_without_press_while_confirmed_witness:
  "exclusive initial_state \<and> no_press_while_confirmed example_cycle initial_state
   \<and> exclusive (last (trace example_cycle initial_state))
   \<and> pending_first_press (last (trace example_cycle initial_state)) ''filter''"
proof -
  have e: "exclusive initial_state" by code_simp
  have n: "no_press_while_confirmed example_cycle initial_state" by code_simp
  have l: "last (trace example_cycle initial_state) \<in> set (trace example_cycle initial_state)"
    by (rule last_in_set) (simp add: example_cycle_def)
  have p: "pending_first_press (last (trace example_cycle initial_state)) ''filter''"
    by code_simp
  from phases_exclusive_without_press_while_confirmed [OF e n] l e n p show ?thesis by blast
qed

subsubsection \<open>The sweep and the timeout timer\<close>

lemma fold_delete_filter: "fold AList.delete xs al = filter (\<lambda>p. fst p \<notin> set xs) al"
proof (induction xs arbitrary: al)
  case Nil
  then show ?case by simp
next
  case (Cons x xs)
  have "fold AList.delete (x # xs) al = filter (\<lambda>p. fst p \<notin> set xs) (AList.delete x al)"
    using Cons [of "AList.delete x al"] by simp
  also have "\<dots> = filter (\<lambda>p. fst p \<notin> set (x # xs)) al"
    by (auto simp: AList.delete_eq intro: filter_cong)
  finally show ?case .
qed

lemma set_expired_keys_delete:
  "set (expired_keys now l (AList.delete k al)) = set (expired_keys now l al) - {k}"
  by (auto simp: in_expired_keys AList.delete_eq)

lemma sweep_after_delete:
  assumes "k \<in> set (expired_keys now l p)"
  shows "fold AList.delete (expired_keys now l (AList.delete k p)) (AList.delete k al)
         = fold AList.delete (expired_keys now l p) al"
proof -
  have d: "AList.delete k al = filter (\<lambda>p. fst p \<noteq> k) al"
    by (auto simp: AList.delete_eq intro: filter_cong)
  have "fold AList.delete (expired_keys now l (AList.delete k p)) (AList.delete k al)
          = filter (\<lambda>q. fst q \<notin> set (expired_keys now l p) - {k}) (AList.delete k al)"
    by (simp only: fold_delete_filter set_expired_keys_delete)
  also have "\<dots> = filter (\<lambda>q. fst q \<notin> set (expired_keys now l p)) al"
    unfolding d using assms by (auto intro: filter_cong)
  finally show ?thesis by (simp add: fold_delete_filter)
qed

lemma distinct_expired_keys:
  "distinct (map fst al) \<Longrightarrow> distinct (expired_keys now l al)"
  by (simp add: expired_keys_def distinct_map_filter)

lemma writes_of_write:
  "writes_of k (async_write_ha_state now tid s)
     = writes_of k s @ (if k = tid then [(tid, fst (icon now tid s))] else [])"
  by (simp add: writes_of_def write_state_writes)

lemma writes_of_expire_pending:
  "writes_of k (expire_pending h tid s)
     = writes_of k s
       @ (if k = tid \<and> tid \<in> set (button_entities h)
          then [(tid, fst (icon (dt_now h) tid (cancel_and_del_reset_timer tid
                  (s\<lparr>pending_confirmations := AList.delete tid (pending_confirmations s)\<rparr>))))]
          else [])"
  by (simp add: expire_pending_def Let_def writes_of_write) (simp add: writes_of_def)

lemma writes_of_fold_expire_pending_other:
  "k \<notin> set xs \<Longrightarrow> writes_of k (fold (expire_pending h) xs s) = writes_of k s"
  by (induction xs arbitrary: s) (auto simp: writes_of_expire_pending)

lemma length_writes_of_fold_expire_pending:
  "distinct xs \<Longrightarrow> k \<in> set xs \<Longrightarrow>
     length (writes_of k (fold (expire_pending h) xs s))
       = length (writes_of k s) + (if k \<in> set (button_entities h) then 1 else 0)"
proof (induction xs arbitrary: s)
  case Nil
  then show ?case by simp
next
  case (Cons x xs)
  show ?case
  proof (cases "k = x")
    case True
    with Cons.prems have "k \<notin> set xs" by simp
    from writes_of_fold_expire_pending_other [OF this, of h "expire_pending h x s"] True
    show ?thesis by (simp add: writes_of_expire_pending)
  next
    case False
    with Cons.prems have "distinct xs" "k \<in> set xs" by auto
    from Cons.IH [OF this, of "expire_pending h x s"] False
    show ?thesis by (simp add: writes_of_expire_pending)
  qed
qed

lemma writes_of_fold_expire_confirmed [simp]:
  "writes_of k (fold expire_confirmed ys s) = writes_of k s"
  by (simp add: writes_of_def)

lemma writes_of_cleanup_other:
  "k \<notin> set (expired_keys (dt_now h) CONFIRMATION_TIMEOUT (pending_confirmations s))
     \<Longrightarrow> writes_of k (cleanup h s) = writes_of k s"
  by (simp add: cleanup_alt Let_def writes_of_fold_expire_pending_other)

lemma length_writes_of_cleanup:
  assumes "distinct (map fst (pending_confirmations s))"
      and "k \<in> set (expired_keys (dt_now h) CONFIRMATION_TIMEOUT (pending_confirmations s))"
  shows "length (writes_of k (cleanup h s))
       = length (writes_of k s) + (if k \<in> set (button_entities h) then 1 else 0)"
  using length_writes_of_fold_expire_pending [OF distinct_expired_keys [OF assms(1)] assms(2)]
  by (simp add: cleanup_alt Let_def)

lemma fire_cancelled:
  "map_of (loop_timers s) hnd = Some th \<Longrightarrow> cancelled th \<Longrightarrow>
     fire h hnd s = s\<lparr>loop_timers := AList.delete hnd (loop_timers s)\<rparr>"
  by (simp add: fire_def)

lemma fire_reset_icon:
  "map_of (loop_timers s) hnd = Some th \<Longrightarrow> \<not> cancelled th \<Longrightarrow> callback_of th = ResetIcon tid
     \<Longrightarrow> fire h hnd s = reset_icon h tid (s\<lparr>loop_timers := AList.delete hnd (loop_timers s)\<rparr>)"
  by (simp add: fire_def run_callback_def)

lemma writes_of_reset_icon:
  "has_key (pending_confirmations s) tid \<Longrightarrow>
     length (writes_of tid (reset_icon h tid s))
       = length (writes_of tid s) + (if tid \<in> set (button_entities h) then 1 else 0)"
  by (simp add: reset_icon_def Let_def writes_of_write) (simp add: writes_of_def)


lemma delete_filter: "AList.delete k al = filter (\<lambda>q. fst q \<noteq> k) al"
  by (auto simp: AList.delete_eq intro: filter_cong)

lemma stale_in_expired:
  assumes "\<not> recently_confirmed now s k" and "(k, ts) \<in> set (confirmed_tasks s)"
  shows "k \<in> set (expired_keys now CONFIRMED_DISPLAY_TIME (confirmed_tasks s))"
proof -
  from assms(2) obtain ts' where m: "map_of (confirmed_tasks s) k = Some ts'"
    by (cases "map_of (confirmed_tasks s) k") (auto simp: map_of_eq_None_iff image_iff)
  with assms(1) have "dt_sub now ts' > CONFIRMED_DISPLAY_TIME"
    by (simp add: recently_confirmed_def)
  with map_of_SomeD [OF m] show ?thesis
    by (auto simp: in_expired_keys)
qed

lemma recently_confirmed_expire_pending [simp]:
  "recently_confirmed (dt_now h) (expire_pending h x s) = recently_confirmed (dt_now h) s"
  by (auto simp: fun_eq_iff recently_confirmed_def expire_pending_confirmed delete_conv')

lemma fold_expire_pending_confirmed_filter:
  "confirmed_tasks (fold (expire_pending h) xs s)
     = filter (\<lambda>q. \<not> (fst q \<in> set xs \<and> fst q \<in> set (button_entities h)
                       \<and> \<not> recently_confirmed (dt_now h) s (fst q)))
         (confirmed_tasks s)"
proof (induction xs arbitrary: s)
  case Nil
  then show ?case by simp
next
  case (Cons x xs)
  show ?case
    unfolding fold_simps Cons [of "expire_pending h x s"]
    by (auto simp: expire_pending_confirmed delete_filter intro: filter_cong)
qed

lemma purge_stale:
  assumes "\<And>q. q \<in> set c \<Longrightarrow> P (fst q) \<Longrightarrow> fst q \<in> set (expired_keys now l c)"
  shows "fold AList.delete (expired_keys now l (filter (\<lambda>q. \<not> P (fst q)) c))
           (filter (\<lambda>q. \<not> P (fst q)) c)
         = fold AList.delete (expired_keys now l c) c"
proof -
  have "set (expired_keys now l (filter (\<lambda>q. \<not> P (fst q)) c))
          = {k \<in> set (expired_keys now l c). \<not> P k}"
    by (auto simp: in_expired_keys)
  then show ?thesis
    using assms by (auto simp: fold_delete_filter intro: filter_cong)
qed

lemma cleanup_confirmed_eq:
  "confirmed_tasks (cleanup h s)
     = fold AList.delete (expired_keys (dt_now h) CONFIRMED_DISPLAY_TIME (confirmed_tasks s))
         (confirmed_tasks s)"
proof -
  let ?E = "expired_keys (dt_now h) CONFIRMATION_TIMEOUT (pending_confirmations s)"
  let ?P = "\<lambda>k. k \<in> set ?E \<and> k \<in> set (button_entities h)
                 \<and> \<not> recently_confirmed (dt_now h) s k"
  have "fst q \<in> set (expired_keys (dt_now h) CONFIRMED_DISPLAY_TIME (confirmed_tasks s))"
    if "q \<in> set (confirmed_tasks s)" "?P (fst q)" for q
    using that stale_in_expired [of "dt_now h" s "fst q" "snd q"] by (cases q) auto
  from purge_stale [of "confirmed_tasks s" ?P, OF this] show ?thesis
    by (simp add: cleanup_alt Let_def fold_expire_pending_confirmed_filter)
qed

lemma cleanup_after_stale_delete:
  assumes "\<not> recently_confirmed (dt_now h) s k"
      and "confirmed_tasks s' = AList.delete k (confirmed_tasks s)"
  shows "confirmed_tasks (cleanup h s') = confirmed_tasks (cleanup h s)"
proof -
  have "fst q \<in> set (expired_keys (dt_now h) CONFIRMED_DISPLAY_TIME (confirmed_tasks s))"
    if "q \<in> set (confirmed_tasks s)" "fst q = k" for q
    using that assms(1) stale_in_expired [of "dt_now h" s "fst q" "snd q"] by (cases q) auto
  from purge_stale [of "confirmed_tasks s" "\<lambda>x. x = k", OF this] show ?thesis
    by (simp add: cleanup_confirmed_eq assms(2) delete_filter)
qed

text \<open>
  C5. For a task id whose first press is older than the timeout and whose timeout
  timer is armed, the sweep of a press and the timer are mutually idempotent. If the
  sweep runs first it removes the pending entry and cancels the timer, and the timer
  then changes nothing (its handle only leaves the loop). If the timer runs first it
  removes the pending entry, and a later sweep does not touch the task id. In either
  order the button of the task id is written exactly once (when it is registered),
  the store is not updated, and the pending, timer and confirmed tables end up the
  same.
\<close>

theorem sweep_and_timer_expiry_idempotent:
  assumes cons: "consistent s"
      and pend: "map_of (pending_confirmations s) tid = Some t0"
      and elapsed: "dt_sub (dt_now h) t0 > CONFIRMATION_TIMEOUT"
      and timer: "map_of (reset_timers s) tid = Some hnd"
      and armed: "map_of (loop_timers s) hnd = Some th"
                 "callback_of th = ResetIcon tid" "\<not> cancelled th"
  shows "\<not> pending_first_press (cleanup h s) tid
       \<and> fire h' hnd (cleanup h s)
           = (cleanup h s)\<lparr>loop_timers := AList.delete hnd (loop_timers (cleanup h s))\<rparr>
       \<and> \<not> pending_first_press (fire h hnd s) tid
       \<and> \<not> pending_first_press (cleanup h' (fire h hnd s)) tid
       \<and> writes_of tid (cleanup h' (fire h hnd s)) = writes_of tid (fire h hnd s)
       \<and> length (writes_of tid (fire h' hnd (cleanup h s)))
           = length (writes_of tid s) + (if tid \<in> set (button_entities h) then 1 else 0)
       \<and> length (writes_of tid (cleanup h' (fire h hnd s)))
           = length (writes_of tid s) + (if tid \<in> set (button_entities h) then 1 else 0)
       \<and> store_updates (fire h' hnd (cleanup h s)) = store_updates s
       \<and> store_updates (cleanup h' (fire h hnd s)) = store_updates s
       \<and> pending_confirmations (fire h hnd (cleanup h s))
           = pending_confirmations (cleanup h (fire h hnd s))
       \<and> reset_timers (fire h hnd (cleanup h s)) = reset_timers (cleanup h (fire h hnd s))
       \<and> confirmed_tasks (fire h hnd (cleanup h s))
           = confirmed_tasks (cleanup h (fire h hnd s))"
proof -
  let ?E = "expired_keys (dt_now h) CONFIRMATION_TIMEOUT (pending_confirmations s)"
  let ?sw = "cleanup h s"
  let ?s0 = "s\<lparr>loop_timers := AList.delete hnd (loop_timers s)\<rparr>"
  from pend elapsed have inE: "tid \<in> set ?E"
    by (auto simp: in_expired_keys dest: map_of_SomeD)
  from pend have hk: "has_key (pending_confirmations s) tid"
    by (simp add: has_key_def)
  \<comment> \<open>the sweep first\<close>
  have a1: "\<not> pending_first_press ?sw tid"
    using inE by (simp add: pending_first_press_def has_key_def map_of_fold_delete)
  have c: "map_of (loop_timers ?sw) hnd = Some (th\<lparr>cancelled := True\<rparr>)"
    using inE timer armed(1) by (auto simp: map_of_cleanup_loop)
  have a2: "fire h' hnd ?sw = ?sw\<lparr>loop_timers := AList.delete hnd (loop_timers ?sw)\<rparr>" for h'
    using c by (simp add: fire_cancelled)
  \<comment> \<open>the timer first\<close>
  have f: "fire h hnd s = reset_icon h tid ?s0"
    by (rule fire_reset_icon [OF armed(1) armed(3) armed(2)])
  have fp: "pending_confirmations (fire h hnd s) = AList.delete tid (pending_confirmations s)"
    by (simp add: f reset_icon_fields)
  have fr: "reset_timers (fire h hnd s) = AList.delete tid (reset_timers s)"
    using hk by (simp add: f reset_icon_fields)
  have b1: "\<not> pending_first_press (fire h hnd s) tid"
    by (simp add: pending_first_press_def has_key_def fp delete_conv')
  have b2: "\<not> pending_first_press (cleanup h' (fire h hnd s)) tid"
    by (simp add: pending_first_press_def has_key_def fp map_of_fold_delete delete_conv')
  have nx: "tid \<notin> set (expired_keys (dt_now h') CONFIRMATION_TIMEOUT
                       (pending_confirmations (fire h hnd s)))"
    by (simp add: fp set_expired_keys_delete)
  have b3: "writes_of tid (cleanup h' (fire h hnd s)) = writes_of tid (fire h hnd s)"
    using nx by (rule writes_of_cleanup_other)
  \<comment> \<open>one reset and no commit, in either order\<close>
  have w0: "writes_of tid (fire h' hnd ?sw) = writes_of tid ?sw"
    by (simp add: a2 writes_of_def)
  from cons have dp: "distinct (map fst (pending_confirmations s))"
    by (simp add: consistent_def)
  have c1: "length (writes_of tid (fire h' hnd ?sw))
           = length (writes_of tid s) + (if tid \<in> set (button_entities h) then 1 else 0)"
    using length_writes_of_cleanup [OF dp inE] by (simp add: w0)
  have "length (writes_of tid (fire h hnd s))
           = length (writes_of tid ?s0) + (if tid \<in> set (button_entities h) then 1 else 0)"
    unfolding f using hk by (intro writes_of_reset_icon) simp
  then have c2: "length (writes_of tid (cleanup h' (fire h hnd s)))
           = length (writes_of tid s) + (if tid \<in> set (button_entities h) then 1 else 0)"
    by (simp add: b3) (simp add: writes_of_def)
  have d1: "store_updates (fire h' hnd ?sw) = store_updates s"
    by (simp add: a2)
  have d2: "store_updates (cleanup h' (fire h hnd s)) = store_updates s"
    by (simp add: f reset_icon_fields)
  \<comment> \<open>the same tables\<close>
  have e1: "pending_confirmations (fire h hnd ?sw) = pending_confirmations (cleanup h (fire h hnd s))"
    using sweep_after_delete [OF inE, of "pending_confirmations s"]
    by (simp add: a2 fp)
  have e2: "reset_timers (fire h hnd ?sw) = reset_timers (cleanup h (fire h hnd s))"
    using sweep_after_delete [OF inE, of "reset_timers s"]
    by (simp add: a2 fp fr)
  have rc: "recently_confirmed (dt_now h) ?s0 = recently_confirmed (dt_now h) s"
    by (rule recently_confirmed_cong) simp
  have "confirmed_tasks (cleanup h (fire h hnd s)) = confirmed_tasks ?sw"
  proof (cases "tid \<in> set (button_entities h) \<and> \<not> recently_confirmed (dt_now h) s tid")
    case True
    with hk have "confirmed_tasks (fire h hnd s) = AList.delete tid (confirmed_tasks s)"
      by (simp add: f reset_icon_confirmed rc)
    with True show ?thesis
      by (intro cleanup_after_stale_delete) simp_all
  next
    case False
    then have "confirmed_tasks (fire h hnd s) = confirmed_tasks s"
      by (auto simp: f reset_icon_confirmed rc)
    then show ?thesis
      by (simp add: cleanup_confirmed_eq)
  qed
  then have e3: "confirmed_tasks (fire h hnd ?sw) = confirmed_tasks (cleanup h (fire h hnd s))"
    by (simp add: a2)
  from a1 a2 b1 b2 b3 c1 c2 d1 d2 e1 e2 e3 show ?thesis by simp
qed

theorem sweep_and_timer_expiry_idempotent_witness:
  "consistent (async_press (example_hass 0) (example_task ''days'' 30 []) initial_state)
   \<and> dt_sub (dt_now (example_hass 6)) (dt_now (example_hass 0)) > CONFIRMATION_TIMEOUT
   \<and> \<not> pending_first_press
         (cleanup (example_hass 7)
            (fire (example_hass 6) 0
               (async_press (example_hass 0) (example_task ''days'' 30 []) initial_state)))
         ''filter''
   \<and> length (writes_of ''filter''
         (fire (example_hass 7) 0
            (cleanup (example_hass 6)
               (async_press (example_hass 0) (example_task ''days'' 30 []) initial_state)))) = 2
   \<and> store_updates
         (fire (example_hass 7) 0
            (cleanup (example_hass 6)
               (async_press (example_hass 0) (example_task ''days'' 30 []) initial_state))) = []"
proof -
  let ?s = "async_press (example_hass 0) (example_task ''days'' 30 []) initial_state"
  let ?th = "\<lparr>callback_of = ResetIcon ''filter'', delay = CONFIRMATION_TIMEOUT,
              cancelled = False\<rparr>"
  have c: "consistent ?s"
    by (intro consistent_async_press consistent_initial)
  have p: "map_of (pending_confirmations ?s) ''filter'' = Some (dt_now (example_hass 0))"
    by code_simp
  have e: "dt_sub (dt_now (example_hass 6)) (dt_now (example_hass 0)) > CONFIRMATION_TIMEOUT"
    by code_simp
  have t: "map_of (reset_timers ?s) ''filter'' = Some 0"
    by code_simp
  have l: "map_of (loop_timers ?s) 0 = Some ?th"
    by code_simp
  have w: "length (writes_of ''filter'' ?s) = 1" and u: "store_updates ?s = []"
    and b: "''filter'' \<in> set (button_entities (example_hass 6))"
    by code_simp+
  have th: "callback_of ?th = ResetIcon ''filter''" "\<not> cancelled ?th"
    by simp_all
  note r = sweep_and_timer_expiry_idempotent [OF c p e t l th, of "example_hass 7"]
  from r have 1: "\<not> pending_first_press
         (cleanup (example_hass 7) (fire (example_hass 6) 0 ?s)) ''filter''"
    by blast
  from r have "length (writes_of ''filter'' (fire (example_hass 7) 0 (cleanup (example_hass 6) ?s)))
      = length (writes_of ''filter'' ?s)
        + (if ''filter'' \<in> set (button_entities (example_hass 6)) then 1 else 0)"
    by blast
  with w b have 2: "length (writes_of ''filter''
         (fire (example_hass 7) 0 (cleanup (example_hass 6) ?s))) = 2"
    by simp
  from r have "store_updates (fire (example_hass 7) 0 (cleanup (example_hass 6) ?s))
      = store_updates ?s"
    by blast
  with u have 3: "store_updates (fire (example_hass 7) 0 (cleanup (example_hass 6) ?s)) = []"
    by simp
  from c e 1 2 3 show ?thesis by blast
qed

end
